(* ===== verification/Prelude.thy ===== *)
theory Prelude
  imports Main "HOL-Library.Word"
begin

text \<open>
  Shared vocabulary of the development.

  The C++ code mutates objects and throws. A member function that does so is an operation
  \<open>('s, 'a) op\<close>: it takes the state of the object, and returns either the exception that
  escapes (\<open>Inl\<close>) or the result (\<open>Inr\<close>), together with the state at that moment. A throw
  does not undo what was written before it, exactly as in C++. \<open>bindE\<close> is sequencing,
  \<open>zoom\<close> runs an operation of a member object inside its owner, \<open>forE\<close> and \<open>foldE\<close> are
  the range-based loops. \<open>wp\<close> is the weakest precondition of an operation with one
  postcondition for the normal and one for the exceptional exit; its rules are collected
  in \<open>wp_rules\<close>.

  The three locales are the interfaces the components share: state machines with an
  invariant, printers with their parsers, and majority quorums.
\<close>

named_theorems wp_rules \<open>weakest preconditions of the basic operations\<close>

subsection \<open>Operations with state and exceptions\<close>

text \<open>The exceptions of the C++ standard library that the program throws.\<close>

datatype exn =
    Runtime_error string
  | Invalid_argument string
  | Out_of_range string

type_synonym ('s, 'a) op = "'s \<Rightarrow> (exn + 'a) \<times> 's"

definition ret :: "'a \<Rightarrow> ('s, 'a) op" where
  "ret x s = (Inr x, s)"

definition throwE :: "exn \<Rightarrow> ('s, 'a) op" where
  "throwE e s = (Inl e, s)"

definition getE :: "('s \<Rightarrow> 'a) \<Rightarrow> ('s, 'a) op" where
  "getE f s = (Inr (f s), s)"

definition modifyE :: "('s \<Rightarrow> 's) \<Rightarrow> ('s, unit) op" where
  "modifyE f s = (Inr (), f s)"

definition bindE :: "('s, 'a) op \<Rightarrow> ('a \<Rightarrow> ('s, 'b) op) \<Rightarrow> ('s, 'b) op" where
  "bindE m f s = (case m s of (Inl e, t) \<Rightarrow> (Inl e, t) | (Inr x, t) \<Rightarrow> f x t)"

text \<open>\<open>try { m } catch (...) { h }\<close>: the handler sees the exception and the state at the throw.\<close>

definition catchE :: "('s, 'a) op \<Rightarrow> (exn \<Rightarrow> ('s, 'a) op) \<Rightarrow> ('s, 'a) op" where
  "catchE m h s = (case m s of (Inl e, t) \<Rightarrow> h e t | (Inr x, t) \<Rightarrow> (Inr x, t))"

text \<open>A value that a pure library call computed or an exception it threw.\<close>

definition liftE :: "exn + 'a \<Rightarrow> ('s, 'a) op" where
  "liftE r s = (r, s)"

text \<open>An operation of a member object, run inside its owner.\<close>

definition zoom :: "('s \<Rightarrow> 't) \<Rightarrow> ('t \<Rightarrow> 's \<Rightarrow> 's) \<Rightarrow> ('t, 'a) op \<Rightarrow> ('s, 'a) op" where
  "zoom g p m s = (case m (g s) of (r, t) \<Rightarrow> (r, p t s))"

fun forE :: "'a list \<Rightarrow> ('a \<Rightarrow> ('s, unit) op) \<Rightarrow> ('s, unit) op" where
  "forE [] f = ret ()"
| "forE (x # xs) f = bindE (f x) (\<lambda>_. forE xs f)"

fun foldE :: "('a \<Rightarrow> 'b \<Rightarrow> ('s, 'b) op) \<Rightarrow> 'a list \<Rightarrow> 'b \<Rightarrow> ('s, 'b) op" where
  "foldE f [] acc = ret acc"
| "foldE f (x # xs) acc = bindE (f x acc) (foldE f xs)"

subsection \<open>Weakest preconditions\<close>

definition wp :: "('s, 'a) op \<Rightarrow> ('a \<Rightarrow> 's \<Rightarrow> bool) \<Rightarrow> (exn \<Rightarrow> 's \<Rightarrow> bool) \<Rightarrow> 's \<Rightarrow> bool" where
  "wp m Q E s = (case m s of (Inl e, t) \<Rightarrow> E e t | (Inr x, t) \<Rightarrow> Q x t)"

text \<open>\<open>runs m Q s\<close>: from \<open>s\<close> the operation returns normally, and its result satisfies \<open>Q\<close>.\<close>

abbreviation runs :: "('s, 'a) op \<Rightarrow> ('a \<Rightarrow> 's \<Rightarrow> bool) \<Rightarrow> 's \<Rightarrow> bool" where
  "runs m Q s \<equiv> wp m Q (\<lambda>_ _. False) s"

lemma wp_ret [wp_rules, simp]: "wp (ret x) Q E s = Q x s"
  by (simp add: wp_def ret_def)

lemma wp_throwE [wp_rules, simp]: "wp (throwE e) Q E s = E e s"
  by (simp add: wp_def throwE_def)

lemma wp_getE [wp_rules, simp]: "wp (getE f) Q E s = Q (f s) s"
  by (simp add: wp_def getE_def)

lemma wp_modifyE [wp_rules, simp]: "wp (modifyE f) Q E s = Q () (f s)"
  by (simp add: wp_def modifyE_def)

lemma wp_liftE [wp_rules, simp]:
  "wp (liftE r) Q E s = (case r of Inl e \<Rightarrow> E e s | Inr x \<Rightarrow> Q x s)"
  by (simp add: wp_def liftE_def)

lemma wp_bindE [wp_rules, simp]: "wp (bindE m f) Q E s = wp m (\<lambda>x. wp (f x) Q E) E s"
  by (simp add: wp_def bindE_def split: prod.splits sum.splits)

lemma wp_catchE [wp_rules, simp]: "wp (catchE m h) Q E s = wp m Q (\<lambda>e. wp (h e) Q E) s"
  by (simp add: wp_def catchE_def split: prod.splits sum.splits)

lemma wp_zoom [wp_rules, simp]:
  "wp (zoom g p m) Q E s = wp m (\<lambda>x t. Q x (p t s)) (\<lambda>e t. E e (p t s)) (g s)"
  by (simp add: wp_def zoom_def split: prod.splits sum.splits)

lemma wp_if [wp_rules, simp]:
  "wp (if b then m else n) Q E s = (if b then wp m Q E s else wp n Q E s)"
  by simp

lemma wp_case_option [wp_rules, simp]:
  "wp (case ov of None \<Rightarrow> m | Some x \<Rightarrow> f x) Q E s =
    (case ov of None \<Rightarrow> wp m Q E s | Some x \<Rightarrow> wp (f x) Q E s)"
  by (simp split: option.splits)

lemma wp_mono:
  assumes "wp m Q E s"
    and "\<And>x t. Q x t \<Longrightarrow> Q' x t" and "\<And>e t. E e t \<Longrightarrow> E' e t"
  shows "wp m Q' E' s"
  using assms by (auto simp: wp_def split: prod.splits sum.splits)

lemma wp_seq:
  assumes "wp m R E s" and "\<And>x t. R x t \<Longrightarrow> wp (f x) Q E t"
  shows "wp (bindE m f) Q E s"
  unfolding wp_bindE by (rule wp_mono [OF assms(1)]) (auto intro: assms(2))

lemma wp_conj:
  "wp m Q E s \<Longrightarrow> wp m Q' E' s \<Longrightarrow> wp m (\<lambda>x t. Q x t \<and> Q' x t) (\<lambda>e t. E e t \<and> E' e t) s"
  by (auto simp: wp_def split: prod.splits sum.splits)

lemma runs_iff: "runs m Q s \<longleftrightarrow> (\<exists>x t. m s = (Inr x, t) \<and> Q x t)"
  by (auto simp: wp_def split: prod.splits sum.splits)

lemma runs_mono:
  "runs m Q s \<Longrightarrow> (\<And>x t. Q x t \<Longrightarrow> wp n R E t) \<Longrightarrow> runs m (\<lambda>_. wp n R E) s"
  by (erule wp_mono) auto

lemma wpD: "wp m Q E s \<Longrightarrow> m s = (Inr x, t) \<Longrightarrow> Q x t"
  by (simp add: wp_def)

text \<open>Loop rules: \<open>I xs s\<close> speaks about the elements \<open>xs\<close> that are still to come.\<close>

lemma wp_forE:
  assumes "\<And>x ys t. I (x # ys) t \<Longrightarrow> wp (f x) (\<lambda>_. I ys) E t"
    and "I xs s" and "\<And>t. I [] t \<Longrightarrow> Q () t"
  shows "wp (forE xs f) Q E s"
  using assms(2)
proof (induction xs arbitrary: s)
  case Nil
  then show ?case using assms(3) by simp
next
  case (Cons x xs)
  show ?case
    using assms(1) [OF Cons.prems] by simp (erule wp_mono, auto intro: Cons.IH)
qed

lemma wp_foldE:
  assumes "\<And>x ys acc t. I (x # ys) acc t \<Longrightarrow> wp (f x acc) (I ys) E t"
    and "I xs acc s" and "\<And>acc t. I [] acc t \<Longrightarrow> Q acc t"
  shows "wp (foldE f xs acc) Q E s"
  using assms(2)
proof (induction xs arbitrary: acc s)
  case Nil
  then show ?case using assms(3) by simp
next
  case (Cons x xs)
  show ?case
    using assms(1) [OF Cons.prems] by simp (erule wp_mono, auto intro: Cons.IH)
qed

subsection \<open>Frames\<close>

text \<open>\<open>frames f m\<close>: the operation leaves the view \<open>f\<close> of the state as it is, whether it returns or throws.\<close>

definition frames :: "('s \<Rightarrow> 'b) \<Rightarrow> ('s, 'a) op \<Rightarrow> bool" where
  "frames f m \<longleftrightarrow> (\<forall>s. f (snd (m s)) = f s)"

lemma framesD: "frames f m \<Longrightarrow> m s = (x, t) \<Longrightarrow> f t = f s"
  by (auto simp: frames_def dest: spec [of _ s])

lemma frames_basic [intro, simp]:
  "frames f (ret x)" "frames f (throwE e)" "frames f (getE h)" "frames f (liftE r)"
  by (simp_all add: frames_def ret_def throwE_def getE_def liftE_def)

lemma frames_modifyE [intro]: "(\<And>s. f (h s) = f s) \<Longrightarrow> frames f (modifyE h)"
  by (simp add: frames_def modifyE_def)

lemma frames_bindE [intro!]: "frames f m \<Longrightarrow> (\<And>x. frames f (k x)) \<Longrightarrow> frames f (bindE m k)"
  by (auto simp: frames_def bindE_def split: prod.splits sum.splits) (metis snd_conv)+

lemma frames_catchE [intro!]: "frames f m \<Longrightarrow> (\<And>e. frames f (h e)) \<Longrightarrow> frames f (catchE m h)"
  by (auto simp: frames_def catchE_def split: prod.splits sum.splits) (metis snd_conv)+

lemma frames_if [intro!]: "frames f m \<Longrightarrow> frames f n \<Longrightarrow> frames f (if b then m else n)"
  by simp

lemma frames_option [intro!]:
  "frames f m \<Longrightarrow> (\<And>x. frames f (k x)) \<Longrightarrow> frames f (case ov of None \<Rightarrow> m | Some x \<Rightarrow> k x)"
  by (simp split: option.splits)

lemma frames_foldE [intro]: "(\<And>x acc. frames f (k x acc)) \<Longrightarrow> frames f (foldE k xs acc)"
  by (induction xs arbitrary: acc) auto

lemma frames_zoom: "(\<And>t s. h t = h (g s) \<Longrightarrow> f (p t s) = f s) \<Longrightarrow> frames h m \<Longrightarrow> frames f (zoom g p m)"
  by (auto simp: frames_def zoom_def split: prod.splits) (metis snd_conv)

subsection \<open>Interfaces\<close>

text \<open>
  A component that changes state by one of several events, with an invariant that every
  event keeps. Runs are lists of events.
\<close>

locale event_machine =
  fixes init :: "'s \<Rightarrow> bool"
    and step :: "'e \<Rightarrow> 's \<Rightarrow> 's"
    and inv :: "'s \<Rightarrow> bool"
  assumes init_inv: "init s \<Longrightarrow> inv s"
    and step_inv: "inv s \<Longrightarrow> inv (step e s)"
begin

lemma fold_inv: "inv s \<Longrightarrow> inv (fold step es s)"
  by (induction es arbitrary: s) (auto intro: step_inv)

lemma run_inv: "init s \<Longrightarrow> inv (fold step es s)"
  by (rule fold_inv) (rule init_inv)

end

text \<open>A printer and the parser that reads its output back, on the values that are valid.\<close>

locale codec =
  fixes encode :: "'a \<Rightarrow> string"
    and decode :: "string \<Rightarrow> exn + 'a"
    and valid :: "'a \<Rightarrow> bool"
  assumes decode_encode: "valid x \<Longrightarrow> decode (encode x) = Inr x"
begin

lemma encode_inj: "valid x \<Longrightarrow> valid y \<Longrightarrow> encode x = encode y \<longleftrightarrow> x = y"
  using decode_encode by (metis Inr_inject)

end

text \<open>
  A quorum size for groups of \<open>n\<close> members such that two quorums always share a member.
\<close>

locale majority =
  fixes quorum :: "nat \<Rightarrow> nat"
  assumes overlap: "n < 2 * quorum n"
    and reachable: "0 < n \<Longrightarrow> quorum n \<le> n"
begin

lemma quorums_intersect:
  assumes "A \<subseteq> {..<n}" and "B \<subseteq> {..<n}" and "quorum n \<le> card A" and "quorum n \<le> card B"
  shows "A \<inter> B \<noteq> {}"
proof
  assume "A \<inter> B = {}"
  moreover have "finite A" "finite B"
    using assms(1,2) by (auto intro: finite_subset)
  ultimately have "card (A \<union> B) = card A + card B"
    by (simp add: card_Un_disjoint)
  moreover have "card (A \<union> B) \<le> n"
    using card_mono [of "{..<n}" "A \<union> B"] assms(1,2) by simp
  ultimately show False
    using assms(3,4) overlap [of n] by linarith
qed

lemma positive: "0 < quorum n"
  using overlap [of n] by simp

end

end
