(* ===== verification/Cpp_Std.thy ===== *)
theory Cpp_Std
  imports Prelude
begin

text \<open>
  What the program uses of the C++ standard library: byte classification in the C locale,
  \<open>std::to_string\<close>, \<open>std::stoll\<close>, \<open>std::stoull\<close>, and the C view of a string that
  \<open>c_str()\<close> gives to the SQLite binding functions. A \<open>std::string\<close> is a list of bytes
  (\<^typ>\<open>string\<close>); a \<open>std::size_t\<close> read from text is a \<^typ>\<open>64 word\<close>.

  The lemmas show that the decimal printers are read back exactly by the parsers.
\<close>

subsection \<open>Bytes\<close>

definition isspace :: "char \<Rightarrow> bool" where
  "isspace c = (c = CHR '' '' \<or> c = CHR 0x09 \<or> c = CHR 0x0A \<or> c = CHR 0x0B \<or> c = CHR 0x0C \<or> c = CHR 0x0D)"

definition isdigit :: "char \<Rightarrow> bool" where
  "isdigit c = (48 \<le> (of_char c :: nat) \<and> (of_char c :: nat) \<le> 57)"

definition tolower :: "char \<Rightarrow> char" where
  "tolower c = (let n = (of_char c :: nat) in if 65 \<le> n \<and> n \<le> 90 then char_of (n + 32) else c)"

definition digit :: "nat \<Rightarrow> char" where
  "digit d = char_of (48 + d)"

text \<open>\<open>s.c_str()\<close> read as a NUL-terminated string: what precedes the first NUL byte.\<close>

definition c_str :: "string \<Rightarrow> string" where
  "c_str s = takeWhile (\<lambda>c. c \<noteq> CHR 0x00) s"

lemma c_str_idem [simp]: "c_str (c_str s) = c_str s"
  by (simp add: c_str_def)

lemma c_str_id: "CHR 0x00 \<notin> set s \<Longrightarrow> c_str s = s"
  by (auto simp: c_str_def takeWhile_eq_all_conv)

lemma c_str_no_nul [simp]: "CHR 0x00 \<notin> set (c_str s)"
  by (auto simp: c_str_def dest: set_takeWhileD)

lemma c_str_Nil [simp]: "c_str [] = []"
  by (simp add: c_str_def)

subsection \<open>Decimal numbers\<close>

fun nat_to_string :: "nat \<Rightarrow> string" where
  "nat_to_string n =
    (if n < 10 then [digit n] else nat_to_string (n div 10) @ [digit (n mod 10)])"

declare nat_to_string.simps [simp del]

text \<open>\<open>std::to_string\<close> on signed integers.\<close>

definition to_string :: "int \<Rightarrow> string" where
  "to_string i = (if i < 0 then CHR ''-'' # nat_to_string (nat (- i)) else nat_to_string (nat i))"

definition digit_value :: "char \<Rightarrow> nat" where
  "digit_value c = of_char c - 48"

definition digits_value :: "string \<Rightarrow> nat" where
  "digits_value ds = foldl (\<lambda>n c. 10 * n + digit_value c) 0 ds"

text \<open>
  The common part of \<open>strtoll\<close> and \<open>strtoull\<close> in base 10: skip white space, read one
  optional sign, read digits, ignore the rest. \<^term>\<open>None\<close>: no digit was found.
\<close>

definition parse_decimal :: "string \<Rightarrow> (bool \<times> nat) option" where
  "parse_decimal s =
    (let t = dropWhile isspace s;
         neg = (t \<noteq> [] \<and> hd t = CHR ''-'');
         u = (if t \<noteq> [] \<and> (hd t = CHR ''-'' \<or> hd t = CHR ''+'') then tl t else t);
         ds = takeWhile isdigit u
     in if ds = [] then None else Some (neg, digits_value ds))"

definition in_int64 :: "int \<Rightarrow> bool" where
  "in_int64 i = (- (2 ^ 63) \<le> i \<and> i < 2 ^ 63)"

definition stoll :: "string \<Rightarrow> exn + int" where
  "stoll s =
    (case parse_decimal s of
       None \<Rightarrow> Inl (Invalid_argument ''stoll'')
     | Some (neg, n) \<Rightarrow>
         (let i = (if neg then - int n else int n)
          in if in_int64 i then Inr i else Inl (Out_of_range ''stoll'')))"

text \<open>\<open>std::stoull\<close> accepts a minus sign and then negates modulo \<open>2^64\<close>.\<close>

definition stoull :: "string \<Rightarrow> exn + 64 word" where
  "stoull s =
    (case parse_decimal s of
       None \<Rightarrow> Inl (Invalid_argument ''stoull'')
     | Some (neg, n) \<Rightarrow>
         (if n < 2 ^ 64 then Inr (if neg then - of_nat n else of_nat n)
          else Inl (Out_of_range ''stoull'')))"

subsection \<open>Printing and reading back\<close>

lemma of_char_digit [simp]: "d < 10 \<Longrightarrow> (of_char (digit d) :: nat) = 48 + d"
  by (simp add: digit_def of_char_of)

lemma isdigit_digit [simp]: "d < 10 \<Longrightarrow> isdigit (digit d)"
  by (simp add: isdigit_def)

lemma digit_value_digit [simp]: "d < 10 \<Longrightarrow> digit_value (digit d) = d"
  by (simp add: digit_value_def)

lemma digits_value_snoc [simp]: "digits_value (ds @ [c]) = 10 * digits_value ds + digit_value c"
  by (simp add: digits_value_def)

lemma digits_value_nat_to_string [simp]: "digits_value (nat_to_string n) = n"
proof (induction n rule: nat_to_string.induct)
  case (1 n)
  show ?case
  proof (cases "n < 10")
    case True
    then show ?thesis
      by (simp add: nat_to_string.simps [of n] digits_value_def)
  next
    case False
    with 1 show ?thesis
      by (simp add: nat_to_string.simps [of n])
  qed
qed

lemma nat_to_string_digits: "c \<in> set (nat_to_string n) \<Longrightarrow> isdigit c"
proof (induction n rule: nat_to_string.induct)
  case (1 n)
  then show ?case
    by (cases "n < 10") (auto simp: nat_to_string.simps [of n])
qed

lemma nat_to_string_nonempty [simp]: "nat_to_string n \<noteq> []"
  by (subst nat_to_string.simps) simp

lemma isdigit_bytes [simp]:
  "\<not> isdigit (CHR ''-'')" "\<not> isdigit (CHR ''+'')" "\<not> isdigit (CHR 0x00)"
  by (simp_all add: isdigit_def)

lemma isdigit_not_space: "isdigit c \<Longrightarrow> \<not> isspace c"
  by (auto simp: isdigit_def isspace_def)

lemma isspace_minus [simp]: "\<not> isspace (CHR ''-'')"
  by (simp add: isspace_def)

lemma takeWhile_nat_to_string [simp]: "takeWhile isdigit (nat_to_string n) = nat_to_string n"
  by (auto simp: takeWhile_eq_all_conv nat_to_string_digits)

lemma parse_decimal_nat_to_string [simp]:
  "parse_decimal (nat_to_string n) = Some (False, n)"
proof (cases "nat_to_string n")
  case Nil
  then show ?thesis by simp
next
  case (Cons c cs)
  then have c: "isdigit c" using nat_to_string_digits [of c n] by simp
  then have sign: "c \<noteq> CHR ''-''" "c \<noteq> CHR ''+''" by (auto simp: isdigit_def)
  have tw: "takeWhile isdigit (c # cs) = c # cs" and dv: "digits_value (c # cs) = n"
    using takeWhile_nat_to_string [of n] digits_value_nat_to_string [of n] Cons by simp_all
  show ?thesis
    using isdigit_not_space [OF c] sign
    by (simp add: parse_decimal_def Cons Let_def tw dv del: takeWhile.simps)
qed

lemma parse_decimal_minus [simp]:
  "parse_decimal (CHR ''-'' # nat_to_string n) = Some (True, n)"
  by (simp add: parse_decimal_def)

lemma stoll_to_string: "in_int64 i \<Longrightarrow> stoll (to_string i) = Inr i"
  by (simp add: stoll_def to_string_def)

lemma stoull_nat_to_string: "n < 2 ^ 64 \<Longrightarrow> stoull (nat_to_string n) = Inr (of_nat n)"
  by (simp add: stoull_def)

interpretation ll: codec to_string stoll in_int64
  by unfold_locales (rule stoll_to_string)

interpretation ull: codec "\<lambda>w :: 64 word. nat_to_string (unat w)" stoull "\<lambda>_. True"
proof unfold_locales
  fix w :: "64 word"
  show "stoull (nat_to_string (unat w)) = Inr w"
    using unsigned_less [of w, where 'a = nat] by (simp add: stoull_nat_to_string)
qed

lemma to_string_no_nul: "CHR 0x00 \<notin> set (to_string i)"
  by (auto simp: to_string_def dest: nat_to_string_digits)

lemma c_str_to_string [simp]: "c_str (to_string i) = to_string i"
  by (rule c_str_id) (rule to_string_no_nul)

end
