(* ===== verification/Common.thy ===== *)
theory Common
  imports Cpp_Std
begin

text \<open>
  The helpers of \<^verbatim>\<open>include/kv/common.hpp\<close>: the FNV-1a hash that routes keys, JSON string
  escaping, path splitting, lower-casing, the line of a log event and the result record of an
  operation. The reading of the clock (\<open>now_ms\<close>) is an argument. The callers of \<open>log_event\<close> are modelled
  without the line they write: the error stream is no part of any other state.

  The lemmas show that the hash separates strings that differ in their last byte, that a JSON
  reader recovers exactly the escaped string, that a log event is one line, and that path splitting
  inverts path building.
\<close>

unbundle bit_operations_syntax

subsection \<open>Definitions\<close>

text \<open>\<open>hash ^= c; hash *= 1099511628211ULL\<close> for each byte, in 64-bit arithmetic.\<close>

definition fnv_step :: "char \<Rightarrow> 64 word \<Rightarrow> 64 word" where
  "fnv_step c h = (h XOR of_nat (of_char c)) * 1099511628211"

definition fnv1a_64 :: "string \<Rightarrow> 64 word" where
  "fnv1a_64 s = fold fnv_step s 1469598103934665603"

definition hex_digit :: "nat \<Rightarrow> char" where
  "hex_digit d = (if d < 10 then char_of (48 + d) else char_of (87 + d))"

text \<open>One pass of the loop of \<open>json_escape\<close>; below \<open>0x20\<close> the byte is written as \<open>\u00XY\<close>.\<close>

definition json_escape_char :: "char \<Rightarrow> string" where
  "json_escape_char c =
    (if c = CHR 0x22 then [CHR 0x5C, CHR 0x22]
     else if c = CHR 0x5C then [CHR 0x5C, CHR 0x5C]
     else if c = CHR 0x08 then [CHR 0x5C, CHR ''b'']
     else if c = CHR 0x0C then [CHR 0x5C, CHR ''f'']
     else if c = CHR 0x0A then [CHR 0x5C, CHR ''n'']
     else if c = CHR 0x0D then [CHR 0x5C, CHR ''r'']
     else if c = CHR 0x09 then [CHR 0x5C, CHR ''t'']
     else if (of_char c :: nat) < 0x20
     then [CHR 0x5C, CHR ''u'', CHR ''0'', CHR ''0'',
           hex_digit (of_char c div 16), hex_digit (of_char c mod 16)]
     else [c])"

definition json_escape :: "string \<Rightarrow> string" where
  "json_escape s = concat (map json_escape_char s)"

text \<open>
  \<open>split_path\<close>: the state of the loop is the parts found and the current part; \<open>?\<close> leaves
  the loop, and a last non-empty part is pushed after it.
\<close>

definition push_part :: "string list \<Rightarrow> string \<Rightarrow> string list" where
  "push_part parts current = (if current \<noteq> [] then parts @ [current] else parts)"

fun split_path_loop :: "string list \<Rightarrow> string \<Rightarrow> string \<Rightarrow> string list" where
  "split_path_loop parts current [] = push_part parts current"
| "split_path_loop parts current (c # cs) =
    (if c = CHR ''/'' then split_path_loop (push_part parts current) [] cs
     else if c = CHR ''?'' then push_part parts current
     else split_path_loop parts (current @ [c]) cs)"

definition split_path :: "string \<Rightarrow> string list" where
  "split_path path = split_path_loop [] [] path"

definition to_lower :: "string \<Rightarrow> string" where
  "to_lower value = map tolower value"

text \<open>What \<open>log_event\<close> writes to the error stream; \<open>ts\<close> is the reading of \<open>now_ms\<close>.\<close>

definition log_event :: "64 word \<Rightarrow> string \<Rightarrow> string \<Rightarrow> string \<Rightarrow> string" where
  "log_event ts level event details =
     ''{\"ts_ms\":'' @ nat_to_string (unat ts) @
     '',\"level\":\"'' @ json_escape level @
     ''\",\"event\":\"'' @ json_escape event @ ''\"'' @
     (if details \<noteq> [] then '',\"details\":\"'' @ json_escape details @ ''\"'' else []) @
     ''}'' @ [CHR 0x0A]"

record operation_result =
  res_ok :: bool
  res_status :: int
  res_message :: string
  res_value :: string
  res_shard :: nat
  res_leader :: string

definition OperationResult :: operation_result where
  "OperationResult = \<lparr>res_ok = False, res_status = 500, res_message = [], res_value = [],
     res_shard = 0, res_leader = []\<rparr>"

subsection \<open>The hash\<close>

text \<open>The multiplier is odd, so each step is a bijection of the 64-bit words.\<close>

lemma fnv_prime_inverse: "(1099511628211 :: 64 word) * 14886173955864302971 = 1"
  by simp

lemma fnv_step_inj: "fnv_step c h = fnv_step c' h' \<longleftrightarrow>
    h XOR of_nat (of_char c) = h' XOR of_nat (of_char c')"
proof
  assume "fnv_step c h = fnv_step c' h'"
  moreover have "x * 1099511628211 * 14886173955864302971 = x" for x :: "64 word"
    by (simp only: mult.assoc fnv_prime_inverse mult_1_right)
  ultimately show "h XOR of_nat (of_char c) = h' XOR of_nat (of_char c')"
    unfolding fnv_step_def by metis
qed (simp add: fnv_step_def)

lemma of_nat_of_char_inj:
  "(of_nat (of_char c) :: 64 word) = of_nat (of_char c') \<longleftrightarrow> c = c'"
proof
  assume "(of_nat (of_char c) :: 64 word) = of_nat (of_char c')"
  then have "unat (of_nat (of_char c) :: 64 word) = unat (of_nat (of_char c') :: 64 word)"
    by simp
  moreover have "unat (of_nat (of_char d) :: 64 word) = of_char d" for d :: char
  proof -
    have "(of_char d :: nat) < 2 ^ 64"
      by (rule less_le_trans [of _ 256]) simp_all
    then show ?thesis by (simp add: unat_of_nat)
  qed
  ultimately have "(of_char c :: nat) = of_char c'" by simp
  then show "c = c'" by simp
qed simp

lemma fnv1a_64_snoc: "fnv1a_64 (s @ [c]) = fnv_step c (fnv1a_64 s)"
  by (simp add: fnv1a_64_def)

lemma word_xor_cancel: "(h XOR x = h XOR y) \<longleftrightarrow> x = (y :: 64 word)"
proof
  assume "h XOR x = h XOR y"
  then have "h XOR (h XOR x) = h XOR (h XOR y)" by simp
  then show "x = y" by (simp add: xor.assoc [symmetric])
qed simp

lemma word_xor_cancel_right: "(x XOR h = y XOR h) \<longleftrightarrow> x = (y :: 64 word)"
  using word_xor_cancel [of h x y] by (simp add: xor.commute)

text \<open>
  Two keys that differ only in their last byte never have the same hash: every step of the
  hash is a bijection of the 64-bit words.
\<close>

lemma fnv1a_64_last_byte: "fnv1a_64 (s @ [c]) = fnv1a_64 (s @ [d]) \<longleftrightarrow> c = d"
  by (simp add: fnv1a_64_snoc fnv_step_inj word_xor_cancel of_nat_of_char_inj)

text \<open>FNV-1a with the published offset basis, for comparison.\<close>

definition fnv1a_64_published :: "string \<Rightarrow> 64 word" where
  "fnv1a_64_published s = fold fnv_step s 14695981039346656037"

lemma fold_fnv_step_inj: "fold fnv_step s h = fold fnv_step s h' \<longleftrightarrow> h = h'"
  by (induction s arbitrary: h h') (auto simp: fnv_step_inj word_xor_cancel_right)

text \<open>
  C36. The starting value is not the published FNV-1a offset basis for 64 bits, which is
  \<open>14695981039346656037\<close>: the source has that number without its last digit, so the hash of
  the empty string, and with it the hash of every string, differs from FNV-1a as published.
\<close>

theorem fnv1a_64_not_published: "fnv1a_64 s \<noteq> fnv1a_64_published s"
  by (simp add: fnv1a_64_def fnv1a_64_published_def fold_fnv_step_inj)

subsection \<open>JSON strings\<close>

text \<open>
  The reference reader of the characters between the quotes of a JSON string: \<^term>\<open>None\<close>
  when they are not well formed (a bare quote, a control character, an unknown escape).
\<close>

definition hex_value :: "char \<Rightarrow> nat option" where
  "hex_value c =
    (let n = (of_char c :: nat)
     in if 48 \<le> n \<and> n \<le> 57 then Some (n - 48)
        else if 97 \<le> n \<and> n \<le> 102 then Some (n - 87) else None)"

definition simple_escape :: "char \<Rightarrow> char option" where
  "simple_escape c =
    map_of [(CHR 0x22, CHR 0x22), (CHR 0x5C, CHR 0x5C), (CHR ''b'', CHR 0x08),
      (CHR ''f'', CHR 0x0C), (CHR ''n'', CHR 0x0A), (CHR ''r'', CHR 0x0D), (CHR ''t'', CHR 0x09)] c"

fun json_unescape :: "string \<Rightarrow> string option" where
  "json_unescape [] = Some []"
| "json_unescape (c # cs) =
    (if c = CHR 0x22 \<or> (of_char c :: nat) < 0x20 then None
     else if c \<noteq> CHR 0x5C then map_option ((#) c) (json_unescape cs)
     else (case cs of
         [] \<Rightarrow> None
       | e # ds \<Rightarrow>
           (if e = CHR ''u''
            then (case ds of
                a # b # h # l # rest \<Rightarrow>
                  (if a = CHR ''0'' \<and> b = CHR ''0'' \<and> hex_value h \<noteq> None \<and> hex_value l \<noteq> None
                   then map_option ((#) (char_of (16 * the (hex_value h) + the (hex_value l))))
                          (json_unescape rest)
                   else None)
              | _ \<Rightarrow> None)
            else (case simple_escape e of
                Some d \<Rightarrow> map_option ((#) d) (json_unescape ds)
              | None \<Rightarrow> None))))"

lemma hex_value_hex_digit [simp]: "d < 16 \<Longrightarrow> hex_value (hex_digit d) = Some d"
  by (auto simp: hex_value_def hex_digit_def of_char_of Let_def)

lemma json_unescape_escape_char:
  "json_unescape (json_escape_char c @ cs) = map_option ((#) c) (json_unescape cs)"
proof (cases "(of_char c :: nat) < 0x20")
  case True
  then have "(of_char c :: nat) div 16 < 16" by linarith
  moreover have "char_of (16 * (of_char c div 16) + of_char c mod 16) = c" by simp
  ultimately show ?thesis
    by (auto simp: json_escape_char_def simple_escape_def)
qed (auto simp: json_escape_char_def simple_escape_def)

lemma json_unescape_escape:
  "json_unescape (json_escape s @ cs) = map_option ((@) s) (json_unescape cs)"
  by (induction s)
    (simp_all add: json_escape_def json_unescape_escape_char option.map_comp o_def option.map_ident
      del: json_unescape.simps(2))

definition printable :: "char \<Rightarrow> bool" where
  "printable c \<longleftrightarrow> 0x20 \<le> (of_char c :: nat)"

lemma printable_hex_digit: "d < 16 \<Longrightarrow> printable (hex_digit d)"
  by (auto simp: printable_def hex_digit_def of_char_of)

lemma printable_json_escape_char: "list_all printable (json_escape_char c)"
proof (cases "(of_char c :: nat) < 0x20")
  case True
  then have "(of_char c :: nat) div 16 < 16" by linarith
  then show ?thesis by (simp add: json_escape_char_def printable_hex_digit) (simp add: printable_def)
qed (auto simp: json_escape_char_def printable_def)

lemma printable_json_escape: "list_all printable (json_escape s)"
  by (induction s) (simp_all add: json_escape_def printable_json_escape_char)

lemma printable_nat_to_string: "list_all printable (nat_to_string n)"
proof -
  have "printable c" if "isdigit c" for c using that by (simp add: isdigit_def printable_def)
  then show ?thesis using nat_to_string_digits by (auto simp: list_all_iff)
qed

text \<open>
  C34. Between the quotes of a JSON string, \<open>json_escape\<close> is faithful: a JSON reader accepts the
  escaped text and recovers exactly the original bytes, so no value can break out of its field.
  The escaped text has no control characters, so whatever it is called with, \<open>log_event\<close> writes exactly
  one line.
\<close>

theorem json_escape_roundtrip:
  "json_unescape (json_escape s) = Some s \<and> list_all printable (json_escape s) \<and>
   (\<exists>line. log_event ts level event details = line @ [CHR 0x0A] \<and> list_all printable line)"
proof -
  have "json_unescape (json_escape s) = Some s" using json_unescape_escape [of s "[]"] by simp
  moreover have "\<exists>line. log_event ts level event details = line @ [CHR 0x0A] \<and> list_all printable line"
    unfolding log_event_def append_assoc [symmetric]
    by (intro exI conjI, rule refl) (simp add: printable_json_escape printable_nat_to_string, simp add: printable_def)
  ultimately show ?thesis by (simp add: printable_json_escape)
qed

subsection \<open>Paths\<close>

text \<open>A path segment: not empty, and without the bytes that end a segment or the path.\<close>

definition path_segment :: "string \<Rightarrow> bool" where
  "path_segment p = (p \<noteq> [] \<and> CHR ''/'' \<notin> set p \<and> CHR ''?'' \<notin> set p)"

definition build_path :: "string list \<Rightarrow> string" where
  "build_path ps = concat (map (\<lambda>p. CHR ''/'' # p) ps)"

lemma split_path_loop_segment:
  "CHR ''/'' \<notin> set p \<Longrightarrow> CHR ''?'' \<notin> set p \<Longrightarrow>
    split_path_loop parts current (p @ cs) = split_path_loop parts (current @ p) cs"
  by (induction p arbitrary: current) auto

lemma split_path_loop_build:
  "\<forall>p \<in> set ps. path_segment p \<Longrightarrow>
    split_path_loop parts current (build_path ps @ cs) =
      (if ps = [] then split_path_loop parts current cs
       else split_path_loop (push_part parts current @ butlast ps) (last ps) cs)"
proof (induction ps arbitrary: parts current)
  case Nil
  then show ?case by (simp add: build_path_def)
next
  case (Cons p ps)
  then have p: "path_segment p" and IH: "\<And>parts current.
      split_path_loop parts current (build_path ps @ cs) =
      (if ps = [] then split_path_loop parts current cs
       else split_path_loop (push_part parts current @ butlast ps) (last ps) cs)"
    by simp_all
  have "split_path_loop parts current (build_path (p # ps) @ cs) =
      split_path_loop (push_part parts current) [] (p @ build_path ps @ cs)"
    by (simp add: build_path_def)
  also have "\<dots> = split_path_loop (push_part parts current) p (build_path ps @ cs)"
    using p by (simp add: path_segment_def split_path_loop_segment)
  finally show ?case
    using p by (simp add: IH path_segment_def push_part_def)
qed

lemma push_part_segments:
  "\<forall>q \<in> set parts. path_segment q \<Longrightarrow> CHR ''/'' \<notin> set current \<Longrightarrow> CHR ''?'' \<notin> set current \<Longrightarrow>
    \<forall>q \<in> set (push_part parts current). path_segment q"
  by (simp add: push_part_def path_segment_def)

lemma split_path_loop_parts:
  assumes "\<forall>q \<in> set parts. path_segment q"
    and "CHR ''/'' \<notin> set current" and "CHR ''?'' \<notin> set current"
  shows "\<forall>q \<in> set (split_path_loop parts current cs). path_segment q"
  using assms
proof (induction cs arbitrary: parts current)
  case Nil
  then show ?case using push_part_segments [OF Nil.prems] by simp
next
  case (Cons c cs)
  note push = push_part_segments [OF Cons.prems]
  consider "c = CHR ''/''" | "c = CHR ''?''" | "c \<noteq> CHR ''/''" "c \<noteq> CHR ''?''" by blast
  then show ?case
  proof cases
    case 1
    then show ?thesis using Cons.IH [of "push_part parts current" "[]"] push by simp
  next
    case 2
    then show ?thesis using push by simp
  next
    case 3
    then show ?thesis using Cons.IH [of parts "current @ [c]"] Cons.prems by simp
  qed
qed

text \<open>
  C35. \<open>split_path\<close> inverts path building: the segments of a path come back, in order and
  complete, and whatever follows a question mark is ignored.
\<close>

theorem split_path_build:
  "\<forall>p \<in> set ps. path_segment p \<Longrightarrow>
    split_path (build_path ps) = ps \<and> split_path (build_path ps @ CHR ''?'' # query) = ps"
  using split_path_loop_build [of ps "[]" "[]" "[]"]
    split_path_loop_build [of ps "[]" "[]" "CHR ''?'' # query"]
  by (auto simp: split_path_def push_part_def path_segment_def)

theorem split_path_build_witness:
  "split_path ''/v1/kv/a?x=1/2'' = [''v1'', ''kv'', ''a'']"
  using split_path_build [of "[''v1'', ''kv'', ''a'']" "''x=1/2''"]
  by (simp add: path_segment_def build_path_def)

text \<open>
  Every part that \<open>split_path\<close> returns is a non-empty string without a slash or a
  question mark, whatever the path is.
\<close>

lemma split_path_parts: "list_all path_segment (split_path path)"
  using split_path_loop_parts [of "[]" "[]" path] by (simp add: split_path_def list_all_iff)

end
