(* ===== verification/Sql_Table.thy ===== *)
theory Sql_Table
  imports Prelude
begin

text \<open>
  A table with a primary key, as the SQL statements of the program use it: the rows with their
  keys, in ascending key order (the order of the B-tree). \<open>upsert\<close> is both
  \<open>INSERT ... ON CONFLICT(key) DO UPDATE\<close> and \<open>INSERT OR REPLACE\<close>: one row per key, the new
  columns win. \<open>delete_where\<close>, \<open>select_key\<close>, \<open>select_from\<close> are the \<open>WHERE\<close> clauses.

  The locale \<open>keyed_table\<close> is what the store relies on; its interpretation is this
  representation.
\<close>

type_synonym ('k, 'r) table = "('k \<times> 'r) list"

fun upsert :: "'k::linorder \<Rightarrow> 'r \<Rightarrow> ('k, 'r) table \<Rightarrow> ('k, 'r) table" where
  "upsert k r [] = [(k, r)]"
| "upsert k r ((k', r') # t) =
    (if k < k' then (k, r) # (k', r') # t
     else if k = k' then (k, r) # t
     else (k', r') # upsert k r t)"

definition delete_where :: "('k \<Rightarrow> bool) \<Rightarrow> ('k, 'r) table \<Rightarrow> ('k, 'r) table" where
  "delete_where P t = filter (\<lambda>(k, _). \<not> P k) t"

definition select_key :: "'k \<Rightarrow> ('k, 'r) table \<Rightarrow> 'r option" where
  "select_key k t = map_of t k"

text \<open>\<open>WHERE key >= k ORDER BY key\<close>.\<close>

definition select_from :: "'k::linorder \<Rightarrow> ('k, 'r) table \<Rightarrow> ('k \<times> 'r) list" where
  "select_from k t = filter (\<lambda>(k', _). k \<le> k') t"

text \<open>\<open>ORDER BY key DESC LIMIT 1\<close>.\<close>

definition select_last :: "('k, 'r) table \<Rightarrow> ('k \<times> 'r) option" where
  "select_last t = (if t = [] then None else Some (last t))"

definition table_ok :: "('k::linorder, 'r) table \<Rightarrow> bool" where
  "table_ok t = sorted_wrt (<) (map fst t)"

subsection \<open>The interface\<close>

locale keyed_table =
  fixes empty :: "'t"
    and update :: "'k \<Rightarrow> 'r \<Rightarrow> 't \<Rightarrow> 't"
    and delete :: "('k \<Rightarrow> bool) \<Rightarrow> 't \<Rightarrow> 't"
    and lookup :: "'k \<Rightarrow> 't \<Rightarrow> 'r option"
    and ok :: "'t \<Rightarrow> bool"
  assumes lookup_empty: "lookup k empty = None"
    and lookup_update: "ok t \<Longrightarrow> lookup k (update k' r t) = (if k = k' then Some r else lookup k t)"
    and lookup_delete: "ok t \<Longrightarrow> lookup k (delete P t) = (if P k then None else lookup k t)"
    and ok_empty: "ok empty"
    and ok_update: "ok t \<Longrightarrow> ok (update k r t)"
    and ok_delete: "ok t \<Longrightarrow> ok (delete P t)"
begin

lemmas laws = lookup_empty lookup_update lookup_delete ok_empty ok_update ok_delete

text \<open>Writing a key and deleting it again leaves what a plain delete leaves.\<close>

lemma lookup_delete_update:
  "ok t \<Longrightarrow> P k' \<Longrightarrow> lookup k (delete P (update k' r t)) = lookup k (delete P t)"
  by (simp add: laws)

lemma lookup_update_twice:
  "ok t \<Longrightarrow> lookup k (update k' r (update k' r' t)) = lookup k (update k' r t)"
  by (simp add: laws)

text \<open>The content of a table after a sequence of updates, read as a map.\<close>

lemma lookup_fold_update:
  "ok t \<Longrightarrow> (\<lambda>k. lookup k (fold (\<lambda>(k, r). update k r) rs t)) = (\<lambda>k. lookup k t) ++ map_of (rev rs)"
proof (induction rs arbitrary: t)
  case Nil
  then show ?case by simp
next
  case (Cons x rs)
  obtain k r where x: "x = (k, r)" by force
  have "(\<lambda>j. lookup j (update k r t)) = (\<lambda>j. lookup j t)(k \<mapsto> r)"
    using Cons.prems by (auto simp: lookup_update)
  then show ?case
    using Cons by (simp add: x ok_update map_add_def fun_eq_iff split: option.splits)
qed

end

subsection \<open>The representation implements it\<close>

lemma set_upsert: "fst ` set (upsert k r t) = insert k (fst ` set t)"
  by (induction k r t rule: upsert.induct) (simp_all add: insert_commute)

lemma table_ok_Cons [simp]:
  "table_ok ((k, r) # t) \<longleftrightarrow> (\<forall>k' \<in> fst ` set t. k < k') \<and> table_ok t"
  by (auto simp: table_ok_def)

lemma table_ok_Nil [simp]: "table_ok []"
  by (simp add: table_ok_def)

lemma table_ok_upsert: "table_ok t \<Longrightarrow> table_ok (upsert k r t)"
proof (induction t)
  case (Cons x t)
  obtain k' r' where "x = (k', r')" by force
  then show ?case using Cons by (force simp: set_upsert)
qed simp

lemma map_of_upsert: "map_of (upsert k r t) = (map_of t)(k \<mapsto> r)"
  by (induction t) (auto simp: fun_eq_iff)

lemma map_of_filter_key: "map_of (filter (\<lambda>(k, _). P k) t) k = (if P k then map_of t k else None)"
  by (induction t) auto

lemma table_ok_filter: "table_ok t \<Longrightarrow> table_ok (filter P t)"
  by (induction t) auto

interpretation tbl: keyed_table "[] :: ('k::linorder, 'r) table" upsert delete_where select_key table_ok
proof unfold_locales
  show "select_key k (delete_where P t) = (if P k then None else select_key k t)"
    for k :: 'k and P and t :: "('k, 'r) table"
    using map_of_filter_key [of "\<lambda>k. \<not> P k" t k] by (simp add: select_key_def delete_where_def)
  show "table_ok (delete_where P t)" if "table_ok t" for P and t :: "('k, 'r) table"
    unfolding delete_where_def using that by (rule table_ok_filter)
qed (simp_all add: select_key_def map_of_upsert table_ok_upsert)

subsection \<open>Tables with keys \<open>1, 2, \<dots>, n\<close>\<close>

text \<open>
  The shape of a Raft log: the keys are the numbers from 1 up without a gap. Here the
  statements act on the list of rows directly.
\<close>

definition numbered :: "'r list \<Rightarrow> (int, 'r) table" where
  "numbered rs = zip [1..int (length rs)] rs"

lemma length_numbered [simp]: "length (numbered rs) = length rs"
  by (simp add: numbered_def)

lemma numbered_Nil [simp]: "numbered [] = []"
  by (simp add: numbered_def)

lemma numbered_snoc: "numbered (rs @ [r]) = numbered rs @ [(int (length rs) + 1, r)]"
  by (simp add: numbered_def upto_rec2 [of 1 "1 + int (length rs)"] add.commute)

lemma map_snd_numbered [simp]: "map snd (numbered rs) = rs"
  by (simp add: numbered_def)

lemma numbered_nth: "n < length rs \<Longrightarrow> numbered rs ! n = (int n + 1, rs ! n)"
  by (simp add: numbered_def add.commute)

lemma keys_numbered: "k \<in> fst ` set (numbered rs) \<longleftrightarrow> 1 \<le> k \<and> k \<le> int (length rs)"
proof -
  have "fst ` set (numbered rs) = set (map fst (numbered rs))" by simp
  also have "\<dots> = {1..int (length rs)}" by (simp add: numbered_def del: set_map)
  finally show ?thesis by simp
qed

lemma table_ok_numbered [simp]: "table_ok (numbered rs)"
  by (simp add: table_ok_def numbered_def)

lemma select_key_numbered:
  "select_key k (numbered rs) = (if 1 \<le> k \<and> k \<le> int (length rs) then Some (rs ! nat (k - 1)) else None)"
proof (induction rs rule: rev_induct)
  case Nil
  then show ?case by (simp add: select_key_def)
next
  case (snoc r rs)
  have "select_key k (numbered (rs @ [r])) =
      (case select_key k (numbered rs) of None \<Rightarrow> if k = int (length rs) + 1 then Some r else None
        | Some x \<Rightarrow> Some x)"
    by (auto simp: select_key_def numbered_snoc map_add_def split: option.splits)
  then show ?case
    by (auto simp: snoc nth_append nat_less_iff)
qed

lemma upsert_above: "\<forall>k' \<in> fst ` set t. k' < k \<Longrightarrow> upsert k r t = t @ [(k, r)]"
  by (induction t) auto

lemma upsert_numbered:
  "k = int (length rs) + 1 \<Longrightarrow> upsert k r (numbered rs) = numbered (rs @ [r])"
  using upsert_above [of "numbered rs" k r] by (auto simp: numbered_snoc keys_numbered)

lemma filter_numbered_less:
  "filter (\<lambda>(j, _). j < k) (numbered rs) = numbered (take (nat (k - 1)) rs)"
proof (induction rs rule: rev_induct)
  case Nil
  then show ?case by simp
next
  case (snoc r rs)
  show ?case
  proof (cases "int (length rs) + 1 < k")
    case True
    then have "take (nat (k - 1)) (rs @ [r]) = rs @ [r]" "take (nat (k - 1)) rs = rs" by simp_all
    then show ?thesis using True snoc by (simp add: numbered_snoc)
  next
    case False
    then have "nat (k - 1) - length rs = 0" by simp
    then show ?thesis using False snoc by (simp add: numbered_snoc)
  qed
qed

lemma delete_from_numbered:
  "delete_where (\<lambda>j. k \<le> j) (numbered rs) = numbered (take (nat (k - 1)) rs)"
proof -
  have "(\<lambda>(j, _ :: 'a). \<not> k \<le> j) = (\<lambda>(j, _). j < k)" by auto
  then show ?thesis by (simp add: delete_where_def filter_numbered_less)
qed

lemma select_from_numbered: "select_from 1 (numbered rs) = numbered rs"
  unfolding select_from_def by (rule filter_True) (use keys_numbered in force)

lemma select_last_numbered:
  "select_last (numbered rs) = (if rs = [] then None else Some (int (length rs), last rs))"
proof (cases rs rule: rev_exhaust)
  case Nil
  then show ?thesis by (simp add: select_last_def)
next
  case (snoc ys y)
  then show ?thesis by (simp add: select_last_def numbered_snoc)
qed

lemma numbered_inj: "numbered rs = numbered ss \<longleftrightarrow> rs = ss"
  by (metis map_snd_numbered)

end
