(* ===== verification/Sqlite_Store.thy ===== *)
theory Sqlite_Store
  imports Common Sql_Table "HOL-Library.List_Lexorder" "HOL-Library.Char_ord"
begin

text \<open>
  \<^verbatim>\<open>src/sqlite_store.cpp\<close>: the durable store of one replica. The SQL text of the program is
  translated statement by statement into operations on the three tables it creates. What the
  SQLite library adds from outside is a parameter, carried in the state: \<open>faults\<close> says for each
  coming statement whether the engine reports an error (and with which message) and \<open>epoch\<close> is
  the value of \<open>unixepoch()\<close>. A statement that fails has no effect on the tables and its
  message is thrown, as \<open>Statement\<close>, \<open>check_step\<close> and \<open>exec\<close> do. One entry of \<open>faults\<close> stands
  for a whole statement (preparing, binding and all its steps), since each of these points
  throws with the tables unchanged.

  \<open>saved\<close> is the content to which an open transaction rolls back. Text columns are bound with
  length \<open>-1\<close>, so a text ends at its first NUL byte (\<^const>\<open>c_str\<close>); values are blobs and keep
  every byte (they are at most 1 MiB long, far below the \<open>int\<close> that carries their length).

  The lemmas show that a failed statement changes nothing, that \<open>clear_all\<close> is all or nothing
  under every schedule of engine errors, and what each statement reads after each write.
\<close>

named_theorems store_simps \<open>what the statements do on a store without pending engine errors\<close>

subsection \<open>State\<close>

record log_entry =
  entry_index :: int
  entry_term :: int
  entry_command :: string
  entry_key :: string
  entry_value :: string

type_synonym log_columns = "int \<times> string \<times> string \<times> string"

text \<open>\<open>kv(key, value, updated_at)\<close>, \<open>raft_log(log_index, term, command, key, value)\<close>, \<open>meta(key, value)\<close>.\<close>

record tables =
  kv_table :: "(string, string \<times> int) table"
  raft_log :: "(int, log_columns) table"
  meta_table :: "(string, string) table"

record sqlite_store =
  db :: tables
  saved :: "tables option"
  faults :: "string option list"
  epoch :: int

definition no_rows :: tables where
  "no_rows = \<lparr>kv_table = [], raft_log = [], meta_table = []\<rparr>"

subsection \<open>Statements\<close>

text \<open>Preparing and stepping a statement (\<open>Statement\<close>, \<open>check_step\<close>) or running \<open>exec\<close>.\<close>

definition engine_call :: "(sqlite_store, unit) op" where
  "engine_call s =
    (case faults s of
       [] \<Rightarrow> (Inr (), s)
     | None # fs \<Rightarrow> (Inr (), s\<lparr>faults := fs\<rparr>)
     | Some msg # fs \<Rightarrow> (Inl (Runtime_error msg), s\<lparr>faults := fs\<rparr>))"

definition query :: "(tables \<Rightarrow> 'a) \<Rightarrow> (sqlite_store, 'a) op" where
  "query f = bindE engine_call (\<lambda>_. getE (\<lambda>s. f (db s)))"

definition change :: "(tables \<Rightarrow> tables) \<Rightarrow> (sqlite_store, unit) op" where
  "change f = bindE engine_call (\<lambda>_. modifyE (\<lambda>s. s\<lparr>db := f (db s)\<rparr>))"

definition store_put :: "string \<Rightarrow> string \<Rightarrow> (sqlite_store, unit) op" where
  "store_put key val = bindE (getE epoch) (\<lambda>now.
     change (\<lambda>t. t\<lparr>kv_table := upsert (c_str key) (val, now) (kv_table t)\<rparr>))"

definition store_erase :: "string \<Rightarrow> (sqlite_store, unit) op" where
  "store_erase key =
     change (\<lambda>t. t\<lparr>kv_table := delete_where (\<lambda>k. k = c_str key) (kv_table t)\<rparr>)"

definition store_get :: "string \<Rightarrow> (sqlite_store, string option) op" where
  "store_get key = query (\<lambda>t. map_option fst (select_key (c_str key) (kv_table t)))"

definition all_kv :: "(sqlite_store, (string \<times> string) list) op" where
  "all_kv = query (\<lambda>t. map (\<lambda>(k, v, _). (k, v)) (kv_table t))"

definition entry_row :: "log_entry \<Rightarrow> log_columns" where
  "entry_row e = (entry_term e, c_str (entry_command e), c_str (entry_key e), entry_value e)"

definition row_entry :: "int \<times> log_columns \<Rightarrow> log_entry" where
  "row_entry = (\<lambda>(i, t, c, k, v). \<lparr>entry_index = i, entry_term = t, entry_command = c,
     entry_key = k, entry_value = v\<rparr>)"

definition append_log :: "log_entry \<Rightarrow> (sqlite_store, unit) op" where
  "append_log e = change (\<lambda>t. t\<lparr>raft_log := upsert (entry_index e) (entry_row e) (raft_log t)\<rparr>)"

definition truncate_log_from :: "int \<Rightarrow> (sqlite_store, unit) op" where
  "truncate_log_from i = change (\<lambda>t. t\<lparr>raft_log := delete_where (\<lambda>j. i \<le> j) (raft_log t)\<rparr>)"

definition log_at :: "int \<Rightarrow> (sqlite_store, log_entry option) op" where
  "log_at i = query (\<lambda>t. map_option (\<lambda>r. row_entry (i, r)) (select_key i (raft_log t)))"

definition logs_from :: "int \<Rightarrow> (sqlite_store, log_entry list) op" where
  "logs_from i = query (\<lambda>t. map row_entry (select_from i (raft_log t)))"

text \<open>\<open>COALESCE(MAX(log_index), 0)\<close>: the rows are in key order, the greatest key is the last one.\<close>

definition store_last_log_index :: "(sqlite_store, int) op" where
  "store_last_log_index = query (\<lambda>t. case select_last (raft_log t) of None \<Rightarrow> 0 | Some (i, _) \<Rightarrow> i)"

definition store_last_log_term :: "(sqlite_store, int) op" where
  "store_last_log_term =
     query (\<lambda>t. case select_last (raft_log t) of None \<Rightarrow> 0 | Some (_, trm, _) \<Rightarrow> trm)"

definition set_meta :: "string \<Rightarrow> string \<Rightarrow> (sqlite_store, unit) op" where
  "set_meta key val = change (\<lambda>t. t\<lparr>meta_table := upsert (c_str key) (c_str val) (meta_table t)\<rparr>)"

definition get_meta :: "string \<Rightarrow> (sqlite_store, string option) op" where
  "get_meta key = query (\<lambda>t. select_key (c_str key) (meta_table t))"

text \<open>\<open>exec\<close> of the transaction statements. A transaction inside a transaction is an engine error.\<close>

definition exec_begin :: "(sqlite_store, unit) op" where
  "exec_begin = bindE engine_call (\<lambda>_. bindE (getE saved) (\<lambda>sv.
     if sv \<noteq> None
     then throwE (Runtime_error ''cannot start a transaction within a transaction'')
     else modifyE (\<lambda>s. s\<lparr>saved := Some (db s)\<rparr>)))"

definition exec_commit :: "(sqlite_store, unit) op" where
  "exec_commit = bindE engine_call (\<lambda>_. bindE (getE saved) (\<lambda>sv.
     if sv = None
     then throwE (Runtime_error ''cannot commit - no transaction is active'')
     else modifyE (\<lambda>s. s\<lparr>saved := None\<rparr>)))"

definition exec_rollback :: "(sqlite_store, unit) op" where
  "exec_rollback = bindE engine_call (\<lambda>_. bindE (getE saved) (\<lambda>sv.
     case sv of
       None \<Rightarrow> throwE (Runtime_error ''cannot rollback - no transaction is active'')
     | Some t \<Rightarrow> modifyE (\<lambda>s. s\<lparr>db := t, saved := None\<rparr>)))"

definition clear_all :: "(sqlite_store, unit) op" where
  "clear_all =
     bindE exec_begin (\<lambda>_.
     catchE
       (bindE (change (\<lambda>t. t\<lparr>kv_table := []\<rparr>)) (\<lambda>_.
        bindE (change (\<lambda>t. t\<lparr>raft_log := []\<rparr>)) (\<lambda>_.
        bindE (change (\<lambda>t. t\<lparr>meta_table := []\<rparr>)) (\<lambda>_.
        exec_commit))))
       (\<lambda>e. bindE exec_rollback (\<lambda>_. throwE e)))"

text \<open>
  The constructor: make the directory, open the file, then the three \<open>PRAGMA\<close> and the three
  \<open>CREATE TABLE IF NOT EXISTS\<close> statements of \<open>initialize\<close>, which keep the tables of an existing
  file. \<open>file\<close> is the content of the file at \<open>path\<close>, if there is one.
\<close>

definition initialize :: "(sqlite_store, unit) op" where
  "initialize = forE [0::nat ..< 6] (\<lambda>_. engine_call)"

definition SqliteStore :: "tables option \<Rightarrow> string option list \<Rightarrow> int \<Rightarrow> exn + sqlite_store" where
  "SqliteStore file fs now =
    (let s0 = \<lparr>db = (case file of None \<Rightarrow> no_rows | Some t \<Rightarrow> t), saved = None,
               faults = fs, epoch = now\<rparr>
     in case (bindE engine_call (\<lambda>_. bindE engine_call (\<lambda>_. initialize))) s0 of
          (Inl e, _) \<Rightarrow> Inl e
        | (Inr _, s) \<Rightarrow> Inr s)"

text \<open>What the file holds when the process ends: an open transaction is rolled back.\<close>

definition durable :: "sqlite_store \<Rightarrow> tables" where
  "durable s = (case saved s of None \<Rightarrow> db s | Some t \<Rightarrow> t)"

subsection \<open>Stores without pending engine errors\<close>

definition healthy :: "sqlite_store \<Rightarrow> bool" where
  "healthy s = (faults s = [] \<and> saved s = None)"

lemma wp_engine_call:
  "wp engine_call Q E s =
    (case faults s of
       [] \<Rightarrow> Q () s
     | None # fs \<Rightarrow> Q () (s\<lparr>faults := fs\<rparr>)
     | Some msg # fs \<Rightarrow> E (Runtime_error msg) (s\<lparr>faults := fs\<rparr>))"
  by (simp add: wp_def engine_call_def split: list.splits option.splits)

lemma wp_engine_call_healthy [store_simps]: "healthy s \<Longrightarrow> wp engine_call Q E s = Q () s"
  by (simp add: wp_engine_call healthy_def)

lemma healthy_db [simp]: "healthy (s\<lparr>db := t\<rparr>) = healthy s"
  by (simp add: healthy_def)

lemma wp_query [store_simps]: "healthy s \<Longrightarrow> wp (query f) Q E s = Q (f (db s)) s"
  by (simp add: query_def store_simps)

lemma wp_change [store_simps]: "healthy s \<Longrightarrow> wp (change f) Q E s = Q () (s\<lparr>db := f (db s)\<rparr>)"
  by (simp add: change_def store_simps)

lemmas statement_defs = store_put_def store_erase_def store_get_def all_kv_def append_log_def
  truncate_log_from_def log_at_def logs_from_def store_last_log_index_def
  store_last_log_term_def set_meta_def get_meta_def

lemma wp_exec_healthy [store_simps]:
  "healthy s \<Longrightarrow> wp exec_begin Q E s = Q () (s\<lparr>saved := Some (db s)\<rparr>)"
  by (simp add: exec_begin_def store_simps) (simp add: healthy_def)

lemma wp_clear_all [store_simps]:
  "healthy s \<Longrightarrow> wp clear_all Q E s = Q () (s\<lparr>db := no_rows\<rparr>)"
  by (cases s, cases "db s")
    (simp add: clear_all_def store_simps exec_commit_def change_def wp_engine_call healthy_def no_rows_def)

lemma wp_initialize [store_simps]: "healthy s \<Longrightarrow> wp initialize Q E s = Q () s"
  by (simp add: initialize_def store_simps upt_rec)

lemma SqliteStore_healthy:
  "SqliteStore file [] now =
    Inr \<lparr>db = (case file of None \<Rightarrow> no_rows | Some t \<Rightarrow> t), saved = None, faults = [], epoch = now\<rparr>"
  by (simp add: SqliteStore_def initialize_def bindE_def engine_call_def ret_def upt_rec Let_def)

subsection \<open>Engine errors\<close>

text \<open>An operation that, when it throws, has left the tables and the transaction as they were.\<close>

definition atomic_op :: "(sqlite_store, 'a) op \<Rightarrow> bool" where
  "atomic_op m = (\<forall>s. wp m (\<lambda>_ _. True) (\<lambda>_ t. db t = db s \<and> saved t = saved s) s)"

lemma atomic_engine_call [intro, simp]: "atomic_op engine_call"
  by (auto simp: atomic_op_def wp_engine_call split: list.splits option.splits)

lemma atomic_query [intro, simp]: "atomic_op (query f)"
  by (auto simp: atomic_op_def query_def wp_engine_call split: list.splits option.splits)

lemma atomic_change [intro, simp]: "atomic_op (change f)"
  by (auto simp: atomic_op_def change_def wp_engine_call split: list.splits option.splits)

text \<open>
  Every single statement of the store is atomic under every schedule of engine errors: if
  the operation throws, the three tables are exactly what they were before the call.
\<close>

lemma statements_atomic:
  "atomic_op (store_put k v) \<and> atomic_op (store_erase k) \<and> atomic_op (store_get k) \<and>
   atomic_op all_kv \<and> atomic_op (append_log e) \<and> atomic_op (truncate_log_from i) \<and>
   atomic_op (log_at i) \<and> atomic_op (logs_from i) \<and> atomic_op store_last_log_index \<and>
   atomic_op store_last_log_term \<and> atomic_op (set_meta k v) \<and> atomic_op (get_meta k)"
proof -
  have "atomic_op (store_put k v)"
    using atomic_change by (simp add: store_put_def atomic_op_def)
  then show ?thesis by (simp add: statement_defs)
qed

text \<open>
  C33. \<open>clear_all\<close> is all or nothing under every schedule of engine errors, including errors of
  the \<open>ROLLBACK\<close> itself: when it returns, the file holds three empty tables; when it throws, the
  file holds exactly what it held before (and so do the tables in use, unless \<open>ROLLBACK\<close> failed
  and left the transaction open).
\<close>

theorem clear_all_atomic:
  assumes "saved s = None"
  shows "case clear_all s of
      (Inr _, t) \<Rightarrow> durable t = no_rows \<and> db t = no_rows
    | (Inl _, t) \<Rightarrow> durable t = db s \<and> (db t = db s \<or> saved t \<noteq> None)"
proof -
  have "wp clear_all (\<lambda>_ t. durable t = no_rows \<and> db t = no_rows)
      (\<lambda>_ t. durable t = db s \<and> (db t = db s \<or> saved t \<noteq> None)) s"
    using assms
    by (auto simp: clear_all_def exec_begin_def exec_commit_def exec_rollback_def change_def
        wp_engine_call durable_def no_rows_def split: list.splits option.splits)
  then show ?thesis by (auto simp: wp_def split: prod.splits sum.splits)
qed

theorem clear_all_atomic_witness:
  "\<exists>s t e. saved s = None \<and> db s \<noteq> no_rows \<and> faults s = [None, None, Some ''disk I/O error''] \<and>
     clear_all s = (Inl e, t) \<and> durable t = db s"
proof -
  define s where "s = \<lparr>db = no_rows\<lparr>meta_table := [(''current_term'', ''3'')]\<rparr>, saved = None,
    faults = [None, None, Some ''disk I/O error''], epoch = 0\<rparr>"
  have "clear_all s = (Inl (Runtime_error ''disk I/O error''), s\<lparr>faults := []\<rparr>)"
    by (simp add: s_def clear_all_def exec_begin_def exec_commit_def exec_rollback_def change_def
        engine_call_def bindE_def catchE_def getE_def modifyE_def throwE_def ret_def no_rows_def)
  with clear_all_atomic [of s] show ?thesis
    by (intro exI [of _ s] exI [of _ "s\<lparr>faults := []\<rparr>"] exI conjI) (simp_all add: s_def no_rows_def)
qed

end
