(* ===== verification/Raft_Replica.thy ===== *)
theory Raft_Replica
  imports Sqlite_Store
begin

text \<open>
  \<^verbatim>\<open>src/raft.cpp\<close>: one replica of a shard. Every member function holds the replica's mutex for
  its whole body, so it is one operation on the replica's state. Terms and indexes are
  \<open>std::int64_t\<close>, whose overflow is undefined behaviour; they are integers here, and what is
  read back from the \<open>meta\<close> table is checked against the 64-bit range by \<^const>\<open>stoll\<close>.
\<close>

subsection \<open>State\<close>

datatype role = Follower | Candidate | Leader

definition role_to_string :: "role \<Rightarrow> string" where
  "role_to_string r =
    (case r of Follower \<Rightarrow> ''follower'' | Candidate \<Rightarrow> ''candidate'' | Leader \<Rightarrow> ''leader'')"

record replica_snapshot =
  snap_term :: int
  snap_commit_index :: int
  snap_log :: "log_entry list"

record raft_replica =
  replica_id :: string
  replica_shard_id :: nat
  store :: sqlite_store
  replica_role :: role
  online :: bool
  current_term :: int
  voted_for :: string
  commit_index :: int
  last_applied :: int

definition on_store :: "(sqlite_store, 'a) op \<Rightarrow> (raft_replica, 'a) op" where
  "on_store = zoom store (\<lambda>s r. r\<lparr>store := s\<rparr>)"

subsection \<open>Accessors\<close>

definition is_online :: "(raft_replica, bool) op" where
  "is_online = getE online"

definition set_online :: "bool \<Rightarrow> (raft_replica, unit) op" where
  "set_online b =
     bindE (modifyE (\<lambda>r. r\<lparr>online := b\<rparr>)) (\<lambda>_.
     if \<not> b then modifyE (\<lambda>r. r\<lparr>replica_role := Follower\<rparr>) else ret ())"

definition set_role :: "role \<Rightarrow> (raft_replica, unit) op" where
  "set_role x = modifyE (\<lambda>r. r\<lparr>replica_role := x\<rparr>)"

definition last_log_index :: "(raft_replica, int) op" where
  "last_log_index = on_store store_last_log_index"

definition last_log_term :: "(raft_replica, int) op" where
  "last_log_term = on_store store_last_log_term"

definition term_at :: "int \<Rightarrow> (raft_replica, int) op" where
  "term_at i =
     (if i = 0 then ret 0
      else bindE (on_store (log_at i)) (\<lambda>e.
        ret (case e of None \<Rightarrow> -1 | Some x \<Rightarrow> entry_term x)))"

definition replica_logs_from :: "int \<Rightarrow> (raft_replica, log_entry list) op" where
  "replica_logs_from i = on_store (logs_from i)"

subsection \<open>Durable state and the state machine\<close>

definition persist_state :: "(raft_replica, unit) op" where
  "persist_state =
     bindE (getE id) (\<lambda>r.
     bindE (on_store (set_meta ''current_term'' (to_string (current_term r)))) (\<lambda>_.
     bindE (on_store (set_meta ''voted_for'' (voted_for r))) (\<lambda>_.
     bindE (on_store (set_meta ''commit_index'' (to_string (commit_index r)))) (\<lambda>_.
     on_store (set_meta ''last_applied'' (to_string (last_applied r)))))))"

definition apply_entry :: "log_entry \<Rightarrow> (raft_replica, unit) op" where
  "apply_entry e =
     (if entry_command e = ''PUT'' then on_store (store_put (entry_key e) (entry_value e))
      else if entry_command e = ''DELETE'' then on_store (store_erase (entry_key e))
      else throwE (Runtime_error (''unknown raft command: '' @ entry_command e)))"

text \<open>
  The loop \<open>for (i = ...; i <= target; ++i)\<close> of \<open>append_entries\<close> and \<open>commit_to\<close>, which stops at
  the first missing entry.
\<close>

function apply_until :: "int \<Rightarrow> int \<Rightarrow> (raft_replica, unit) op" where
  "apply_until i target =
     (if i \<le> target
      then bindE (on_store (log_at i)) (\<lambda>e.
        case e of
          None \<Rightarrow> ret ()
        | Some x \<Rightarrow>
            bindE (apply_entry x) (\<lambda>_.
            bindE (modifyE (\<lambda>r. r\<lparr>last_applied := i\<rparr>)) (\<lambda>_.
            apply_until (i + 1) target)))
      else ret ())"
  by pat_completeness auto
termination
  by (relation "measure (\<lambda>(i, target). nat (target + 1 - i))") auto

text \<open>The loop of \<open>install_snapshot\<close> and \<open>load_state\<close>, which skips missing entries.\<close>

function apply_present :: "int \<Rightarrow> int \<Rightarrow> (raft_replica, unit) op" where
  "apply_present i target =
     (if i \<le> target
      then bindE (on_store (log_at i)) (\<lambda>e.
        bindE (case e of
            None \<Rightarrow> ret ()
          | Some x \<Rightarrow>
              bindE (apply_entry x) (\<lambda>_. modifyE (\<lambda>r. r\<lparr>last_applied := i\<rparr>))) (\<lambda>_.
        apply_present (i + 1) target))
      else ret ())"
  by pat_completeness auto
termination
  by (relation "measure (\<lambda>(i, target). nat (target + 1 - i))") auto

declare apply_until.simps [simp del] apply_present.simps [simp del]

text \<open>\<open>if (const auto value = store_->get_meta(key)) field = std::stoll(*value)\<close>\<close>

definition load_int :: "string \<Rightarrow> (int \<Rightarrow> raft_replica \<Rightarrow> raft_replica) \<Rightarrow> (raft_replica, unit) op" where
  "load_int key assign =
     bindE (on_store (get_meta key)) (\<lambda>v.
       case v of
         None \<Rightarrow> ret ()
       | Some s \<Rightarrow> bindE (liftE (stoll s)) (\<lambda>i. modifyE (assign i)))"

definition load_state :: "(raft_replica, unit) op" where
  "load_state =
     bindE (load_int ''current_term'' (\<lambda>i r. r\<lparr>current_term := i\<rparr>)) (\<lambda>_.
     bindE (on_store (get_meta ''voted_for'')) (\<lambda>v.
     bindE (case v of None \<Rightarrow> ret () | Some s \<Rightarrow> modifyE (\<lambda>r. r\<lparr>voted_for := s\<rparr>)) (\<lambda>_.
     bindE (load_int ''commit_index'' (\<lambda>i r. r\<lparr>commit_index := i\<rparr>)) (\<lambda>_.
     bindE (load_int ''last_applied'' (\<lambda>i r. r\<lparr>last_applied := i\<rparr>)) (\<lambda>_.
     bindE (getE id) (\<lambda>r.
     if last_applied r < commit_index r
     then bindE (apply_present (last_applied r + 1) (commit_index r)) (\<lambda>_. persist_state)
     else ret ()))))))"

text \<open>The constructor: open the store on the file's content, then load the durable state.\<close>

definition RaftReplica ::
    "string \<Rightarrow> nat \<Rightarrow> tables option \<Rightarrow> string option list \<Rightarrow> int \<Rightarrow> exn + raft_replica" where
  "RaftReplica rid sid file fs now =
    (case SqliteStore file fs now of
       Inl e \<Rightarrow> Inl e
     | Inr st \<Rightarrow>
         (case load_state \<lparr>replica_id = rid, replica_shard_id = sid, store = st,
              replica_role = Follower, online = True, current_term = 0, voted_for = [],
              commit_index = 0, last_applied = 0\<rparr> of
            (Inl e, _) \<Rightarrow> Inl e
          | (Inr _, r) \<Rightarrow> Inr r))"

subsection \<open>The Raft operations\<close>

definition request_vote :: "int \<Rightarrow> string \<Rightarrow> int \<Rightarrow> int \<Rightarrow> (raft_replica, bool) op" where
  "request_vote trm candidate_id candidate_last_index candidate_last_term =
     bindE (getE id) (\<lambda>r.
     if \<not> online r \<or> trm < current_term r then ret False
     else
       bindE (if trm > current_term r
              then modifyE (\<lambda>r. r\<lparr>current_term := trm, voted_for := [], replica_role := Follower\<rparr>)
              else ret ()) (\<lambda>_.
       bindE last_log_term (\<lambda>own_last_term.
       bindE last_log_index (\<lambda>own_last_index.
       bindE (getE voted_for) (\<lambda>vf.
       let candidate_is_current =
             candidate_last_term > own_last_term \<or>
             candidate_last_term = own_last_term \<and> candidate_last_index \<ge> own_last_index
       in if candidate_is_current \<and> (vf = [] \<or> vf = candidate_id)
          then bindE (modifyE (\<lambda>r. r\<lparr>voted_for := candidate_id\<rparr>)) (\<lambda>_.
               bindE persist_state (\<lambda>_. ret True))
          else bindE persist_state (\<lambda>_. ret False))))))"

text \<open>The body of the loop over the entries of \<open>append_entries\<close>.\<close>

definition append_entry :: "log_entry \<Rightarrow> (raft_replica, unit) op" where
  "append_entry e =
     bindE (on_store (log_at (entry_index e))) (\<lambda>existing.
     bindE (if existing \<noteq> None \<and> entry_term (the existing) \<noteq> entry_term e
            then on_store (truncate_log_from (entry_index e)) else ret ()) (\<lambda>_.
     bindE (on_store (log_at (entry_index e))) (\<lambda>now.
     if now = None then on_store (append_log e) else ret ())))"

text \<open>
  \<open>append_entries\<close>, in two parts: the guards, the adoption of the leader and the consistency
  check, then (\<open>append_entries_tail\<close>, from line 145) the entries and the commit index.
\<close>

definition append_entries_tail :: "log_entry list \<Rightarrow> int \<Rightarrow> (raft_replica, bool) op" where
  "append_entries_tail entries leader_commit =
     bindE (forE entries append_entry) (\<lambda>_.
     bindE last_log_index (\<lambda>last_index.
     bindE (getE id) (\<lambda>r.
     let new_commit = min leader_commit last_index
     in bindE (if new_commit > commit_index r
               then bindE (apply_until (last_applied r + 1) new_commit) (\<lambda>_.
                    modifyE (\<lambda>r. r\<lparr>commit_index := max (commit_index r) new_commit\<rparr>))
               else ret ()) (\<lambda>_.
        bindE persist_state (\<lambda>_. ret True)))))"

definition append_entries ::
    "int \<Rightarrow> string \<Rightarrow> int \<Rightarrow> int \<Rightarrow> log_entry list \<Rightarrow> int \<Rightarrow> (raft_replica, bool) op" where
  "append_entries trm leader_id prev_log_index prev_log_term entries leader_commit =
     bindE (getE id) (\<lambda>r.
     if \<not> online r \<or> trm < current_term r then ret False
     else
       bindE (if trm > current_term r
              then modifyE (\<lambda>r. r\<lparr>current_term := trm, voted_for := []\<rparr>) else ret ()) (\<lambda>_.
       bindE (modifyE (\<lambda>r. r\<lparr>replica_role := Follower, voted_for := leader_id\<rparr>)) (\<lambda>_.
       bindE (if prev_log_index > 0
              then bindE (on_store (log_at prev_log_index)) (\<lambda>previous.
                ret (previous \<noteq> None \<and> entry_term (the previous) = prev_log_term))
              else ret True) (\<lambda>matches.
       if \<not> matches then bindE persist_state (\<lambda>_. ret False)
       else append_entries_tail entries leader_commit))))"

definition append_local :: "string \<Rightarrow> string \<Rightarrow> string \<Rightarrow> (raft_replica, log_entry) op" where
  "append_local command key val =
     bindE (getE id) (\<lambda>r.
     if \<not> online r \<or> replica_role r \<noteq> Leader
     then throwE (Runtime_error ''append_local requires an online leader'')
     else
       bindE last_log_index (\<lambda>last_index.
       let entry = \<lparr>entry_index = last_index + 1, entry_term = current_term r,
             entry_command = command, entry_key = key, entry_value = val\<rparr>
       in bindE (on_store (append_log entry)) (\<lambda>_. ret entry)))"

definition commit_to :: "int \<Rightarrow> (raft_replica, unit) op" where
  "commit_to i =
     bindE (getE id) (\<lambda>r.
     if \<not> online r then ret ()
     else
       bindE last_log_index (\<lambda>last_index.
       let target = min i last_index
       in bindE (apply_until (last_applied r + 1) target) (\<lambda>_.
          bindE (modifyE (\<lambda>r. r\<lparr>commit_index := max (commit_index r) target\<rparr>)) (\<lambda>_.
          persist_state))))"

definition discard_uncommitted :: "(raft_replica, unit) op" where
  "discard_uncommitted = bindE (getE commit_index) (\<lambda>c. on_store (truncate_log_from (c + 1)))"

definition replica_get :: "string \<Rightarrow> (raft_replica, string option) op" where
  "replica_get key =
     bindE (getE online) (\<lambda>b. if \<not> b then ret None else on_store (store_get key))"

text \<open>\<open>static_cast<std::size_t>(commit_index_)\<close>: a negative value wraps modulo \<open>2^64\<close>.\<close>

definition as_size :: "int \<Rightarrow> nat" where
  "as_size i = (if 0 \<le> i then nat i else nat (2 ^ 64 + i))"

definition export_snapshot :: "(raft_replica, replica_snapshot) op" where
  "export_snapshot =
     bindE (getE id) (\<lambda>r.
     bindE (on_store (logs_from 1)) (\<lambda>entries.
     ret \<lparr>snap_term = current_term r, snap_commit_index = commit_index r,
          snap_log = (if length entries > as_size (commit_index r)
                      then take (as_size (commit_index r)) entries else entries)\<rparr>))"

definition install_snapshot :: "replica_snapshot \<Rightarrow> (raft_replica, unit) op" where
  "install_snapshot snapshot =
     bindE (getE online) (\<lambda>b.
     if \<not> b then ret ()
     else
       bindE (on_store clear_all) (\<lambda>_.
       bindE (modifyE (\<lambda>r. r\<lparr>current_term := max (current_term r) (snap_term snapshot),
         voted_for := [], replica_role := Follower, commit_index := 0, last_applied := 0\<rparr>)) (\<lambda>_.
       bindE (forE (snap_log snapshot) (\<lambda>e. on_store (append_log e))) (\<lambda>_.
       bindE last_log_index (\<lambda>last_index.
       let target = min (snap_commit_index snapshot) last_index
       in bindE (apply_present 1 target) (\<lambda>_.
          bindE (modifyE (\<lambda>r. r\<lparr>commit_index := target\<rparr>)) (\<lambda>_.
          persist_state)))))))"

definition replica_status_json :: "(raft_replica, string) op" where
  "replica_status_json =
     bindE (getE id) (\<lambda>r.
     bindE last_log_index (\<lambda>last_index.
     ret (''{\"id\":\"'' @ json_escape (replica_id r) @ ''\"'' @
          '',\"online\":'' @ (if online r then ''true'' else ''false'') @
          '',\"role\":\"'' @ role_to_string (replica_role r) @ ''\"'' @
          '',\"term\":'' @ to_string (current_term r) @
          '',\"commit_index\":'' @ to_string (commit_index r) @
          '',\"last_log_index\":'' @ to_string last_index @ ''}'')))"

end
