(* ===== verification/Metrics.thy ===== *)
theory Metrics
  imports Common
begin

text \<open>
  \<^verbatim>\<open>src/metrics.cpp\<close>: the counters, as 64-bit words (\<open>std::atomic<std::uint64_t>\<close>, so an
  addition wraps around), and their Prometheus text. Every update is one atomic addition, so
  the order of concurrent updates does not matter.
\<close>

record metrics =
  requests :: "64 word"
  request_latency_us :: "64 word"
  auth_failures :: "64 word"
  rate_limited :: "64 word"
  gets :: "64 word"
  puts :: "64 word"
  deletes :: "64 word"
  retries :: "64 word"
  circuit_open :: "64 word"
  gateway_failures :: "64 word"
  elections :: "64 word"
  replication_failures :: "64 word"

definition Metrics :: metrics where
  "Metrics = \<lparr>requests = 0, request_latency_us = 0, auth_failures = 0, rate_limited = 0,
     gets = 0, puts = 0, deletes = 0, retries = 0, circuit_open = 0, gateway_failures = 0,
     elections = 0, replication_failures = 0\<rparr>"

definition record_request :: "64 word \<Rightarrow> metrics \<Rightarrow> metrics" where
  "record_request latency_us m =
     m\<lparr>requests := requests m + 1, request_latency_us := request_latency_us m + latency_us\<rparr>"

definition inc_auth_failure :: "metrics \<Rightarrow> metrics" where
  "inc_auth_failure m = m\<lparr>auth_failures := auth_failures m + 1\<rparr>"

definition inc_rate_limited :: "metrics \<Rightarrow> metrics" where
  "inc_rate_limited m = m\<lparr>rate_limited := rate_limited m + 1\<rparr>"

definition inc_get :: "metrics \<Rightarrow> metrics" where
  "inc_get m = m\<lparr>gets := gets m + 1\<rparr>"

definition inc_put :: "metrics \<Rightarrow> metrics" where
  "inc_put m = m\<lparr>puts := puts m + 1\<rparr>"

definition inc_delete :: "metrics \<Rightarrow> metrics" where
  "inc_delete m = m\<lparr>deletes := deletes m + 1\<rparr>"

definition inc_retry :: "metrics \<Rightarrow> metrics" where
  "inc_retry m = m\<lparr>retries := retries m + 1\<rparr>"

definition inc_circuit_open :: "metrics \<Rightarrow> metrics" where
  "inc_circuit_open m = m\<lparr>circuit_open := circuit_open m + 1\<rparr>"

definition inc_gateway_failure :: "metrics \<Rightarrow> metrics" where
  "inc_gateway_failure m = m\<lparr>gateway_failures := gateway_failures m + 1\<rparr>"

definition inc_election :: "metrics \<Rightarrow> metrics" where
  "inc_election m = m\<lparr>elections := elections m + 1\<rparr>"

definition inc_replication_failure :: "metrics \<Rightarrow> metrics" where
  "inc_replication_failure m = m\<lparr>replication_failures := replication_failures m + 1\<rparr>"

definition metric_line :: "string \<Rightarrow> 64 word \<Rightarrow> string" where
  "metric_line name n = name @ '' '' @ nat_to_string (unat n) @ [CHR 0x0A]"

definition text_line :: "string \<Rightarrow> string" where
  "text_line s = s @ [CHR 0x0A]"

definition average_latency :: "metrics \<Rightarrow> 64 word" where
  "average_latency m = (if requests m = 0 then 0 else request_latency_us m div requests m)"

definition render_prometheus :: "metrics \<Rightarrow> string" where
  "render_prometheus m =
     text_line ''# HELP kv_gateway_requests_total Total HTTP requests.'' @
     text_line ''# TYPE kv_gateway_requests_total counter'' @
     metric_line ''kv_gateway_requests_total'' (requests m) @
     text_line ''# HELP kv_gateway_request_latency_microseconds_sum Cumulative request latency.'' @
     text_line ''# TYPE kv_gateway_request_latency_microseconds_sum counter'' @
     metric_line ''kv_gateway_request_latency_microseconds_sum'' (request_latency_us m) @
     text_line ''# HELP kv_gateway_request_latency_microseconds_avg Average request latency.'' @
     text_line ''# TYPE kv_gateway_request_latency_microseconds_avg gauge'' @
     metric_line ''kv_gateway_request_latency_microseconds_avg'' (average_latency m) @
     metric_line ''kv_gateway_auth_failures_total'' (auth_failures m) @
     metric_line ''kv_gateway_rate_limited_total'' (rate_limited m) @
     metric_line ''kv_gateway_get_total'' (gets m) @
     metric_line ''kv_gateway_put_total'' (puts m) @
     metric_line ''kv_gateway_delete_total'' (deletes m) @
     metric_line ''kv_gateway_retries_total'' (retries m) @
     metric_line ''kv_gateway_circuit_open_total'' (circuit_open m) @
     metric_line ''kv_gateway_failures_total'' (gateway_failures m) @
     metric_line ''kv_raft_elections_total'' (elections m) @
     metric_line ''kv_raft_replication_failures_total'' (replication_failures m)"

end
