(* ===== verification/Shard.thy ===== *)
theory Shard
  imports Raft_Replica Metrics
begin

text \<open>
  The class \<open>Shard\<close> of \<^verbatim>\<open>src/cluster.cpp\<close>: a fixed group of replicas, its leader, elections,
  replication and recovery. Every public member function holds the shard's mutex for its whole
  body, so it is one operation. A \<open>std::shared_ptr<RaftReplica>\<close> is a position in \<open>replicas\<close>:
  the vectors \<open>online\<close> and \<open>acknowledged_followers\<close> and the variables \<open>candidate\<close>, \<open>leader\<close>
  alias the elements of \<open>replicas_\<close>, and so do positions. \<open>shard_metrics\<close> is the object behind
  the reference \<open>metrics_\<close>. Log output is left out.
\<close>

record shard =
  shard_id :: nat
  replicas :: "raft_replica list"
  leader_id :: string
  shard_metrics :: metrics

definition on_replica :: "nat \<Rightarrow> (raft_replica, 'a) op \<Rightarrow> (shard, 'a) op" where
  "on_replica i = zoom (\<lambda>s. replicas s ! i) (\<lambda>r s. s\<lparr>replicas := (replicas s)[i := r]\<rparr>)"

definition count_metric :: "(metrics \<Rightarrow> metrics) \<Rightarrow> (shard, unit) op" where
  "count_metric f = modifyE (\<lambda>s. s\<lparr>shard_metrics := f (shard_metrics s)\<rparr>)"

text \<open>\<open>replicas_.size() / 2 + 1\<close>\<close>

definition quorum_size :: "nat \<Rightarrow> nat" where
  "quorum_size n = n div 2 + 1"

definition current_leader_locked :: "(shard, nat option) op" where
  "current_leader_locked = getE (\<lambda>s.
     find (\<lambda>i. replica_id (replicas s ! i) = leader_id s \<and> online (replicas s ! i))
       [0..<length (replicas s)])"

definition sync_follower_locked :: "nat \<Rightarrow> nat \<Rightarrow> (shard, unit) op" where
  "sync_follower_locked follower leader =
     bindE (on_replica follower is_online) (\<lambda>b.
     if \<not> b then ret ()
     else bindE (on_replica leader export_snapshot) (\<lambda>snapshot.
          on_replica follower (install_snapshot snapshot)))"

subsection \<open>Election\<close>

text \<open>The comparator of the \<open>std::max_element\<close> call: commit index, then last log term, then last log index.\<close>

definition candidate_less :: "nat \<Rightarrow> nat \<Rightarrow> (shard, bool) op" where
  "candidate_less a b =
     bindE (on_replica a (getE commit_index)) (\<lambda>ca.
     bindE (on_replica b (getE commit_index)) (\<lambda>cb.
     if ca \<noteq> cb then ret (ca < cb)
     else
       bindE (on_replica a last_log_term) (\<lambda>ta.
       bindE (on_replica b last_log_term) (\<lambda>tb.
       if ta \<noteq> tb
       then bindE (on_replica a last_log_term) (\<lambda>ta.
            bindE (on_replica b last_log_term) (\<lambda>tb. ret (ta < tb)))
       else
         bindE (on_replica a last_log_index) (\<lambda>ia.
         bindE (on_replica b last_log_index) (\<lambda>ib. ret (ia < ib)))))))"

text \<open>\<open>std::max_element\<close>: the first of the greatest elements; \<open>largest\<close> is the best so far.\<close>

fun max_element :: "nat \<Rightarrow> nat list \<Rightarrow> (shard, nat) op" where
  "max_element largest [] = ret largest"
| "max_element largest (x # xs) =
     bindE (candidate_less largest x) (\<lambda>less. max_element (if less then x else largest) xs)"

definition next_term :: "raft_replica list \<Rightarrow> int" where
  "next_term rs = fold (\<lambda>r acc. max acc (current_term r + 1)) rs 1"

definition collect_votes :: "int \<Rightarrow> string \<Rightarrow> int \<Rightarrow> int \<Rightarrow> nat list \<Rightarrow> (shard, nat) op" where
  "collect_votes trm candidate_id last_index last_trm voters =
     foldE (\<lambda>i votes.
       bindE (on_replica i (request_vote trm candidate_id last_index last_trm)) (\<lambda>granted.
       ret (if granted then votes + 1 else votes))) voters 0"

definition ensure_leader_locked :: "(shard, bool) op" where
  "ensure_leader_locked =
     bindE current_leader_locked (\<lambda>l.
     if l \<noteq> None then ret True
     else bindE (getE replicas) (\<lambda>rs.
     let quorum = quorum_size (length rs);
         onl = filter (\<lambda>i. online (rs ! i)) [0..<length rs]
     in if length onl < quorum
        then bindE (modifyE (\<lambda>s. s\<lparr>leader_id := []\<rparr>)) (\<lambda>_. ret False)
        else
          bindE (max_element (hd onl) (tl onl)) (\<lambda>candidate.
          let trm = next_term rs; candidate_id = replica_id (rs ! candidate)
          in
          bindE (on_replica candidate (set_role Candidate)) (\<lambda>_.
          bindE (on_replica candidate last_log_index) (\<lambda>candidate_last_index.
          bindE (on_replica candidate last_log_term) (\<lambda>candidate_last_term.
          bindE (collect_votes trm candidate_id candidate_last_index candidate_last_term onl) (\<lambda>votes.
          if votes < quorum
          then bindE (on_replica candidate (set_role Follower)) (\<lambda>_.
               bindE (modifyE (\<lambda>s. s\<lparr>leader_id := []\<rparr>)) (\<lambda>_. ret False))
          else
            bindE (forE [0..<length rs] (\<lambda>i. on_replica i (set_role Follower))) (\<lambda>_.
            bindE (on_replica candidate (set_role Leader)) (\<lambda>_.
            bindE (modifyE (\<lambda>s. s\<lparr>leader_id := candidate_id\<rparr>)) (\<lambda>_.
            bindE (forE onl (\<lambda>i.
              if replica_id (rs ! i) \<noteq> candidate_id then sync_follower_locked i candidate
              else ret ())) (\<lambda>_.
            bindE (count_metric inc_election) (\<lambda>_.
            ret True))))))))))))"

subsection \<open>Replication\<close>

text \<open>
  The loop over the followers of \<open>replicate_command_locked\<close>; the accumulator is the number of
  acknowledgements and the followers that gave one.
\<close>

definition replicate_to ::
    "nat \<Rightarrow> log_entry \<Rightarrow> int \<Rightarrow> int \<Rightarrow> nat \<Rightarrow> nat \<times> nat list \<Rightarrow> (shard, nat \<times> nat list) op" where
  "replicate_to leader entry prev_index prev_term follower acc =
     bindE (on_replica follower (getE id)) (\<lambda>f.
     bindE (on_replica leader (getE id)) (\<lambda>l.
     if replica_id f = replica_id l \<or> \<not> online f then ret acc
     else
       bindE (if commit_index f \<noteq> commit_index l then ret True
              else bindE (on_replica follower last_log_index) (\<lambda>i. ret (i \<noteq> commit_index l))) (\<lambda>stale.
       bindE (if stale then sync_follower_locked follower leader else ret ()) (\<lambda>_.
       bindE (on_replica leader (getE id)) (\<lambda>l.
       bindE (on_replica follower (append_entries (current_term l) (replica_id l) prev_index
         prev_term [entry] (commit_index l))) (\<lambda>accepted.
       if accepted then ret (fst acc + 1, snd acc @ [follower])
       else bindE (count_metric inc_replication_failure) (\<lambda>_. ret acc)))))))"

definition replicate_command_locked ::
    "string \<Rightarrow> string \<Rightarrow> string \<Rightarrow> (shard, operation_result) op" where
  "replicate_command_locked command key val =
     bindE (getE shard_id) (\<lambda>sid.
     let result = OperationResult\<lparr>res_shard := sid\<rparr>
     in
     bindE ensure_leader_locked (\<lambda>elected.
     if \<not> elected
     then ret (result\<lparr>res_status := 503, res_message := ''no quorum available''\<rparr>)
     else bindE current_leader_locked (\<lambda>lo.
     case lo of
       None \<Rightarrow> ret (result\<lparr>res_status := 503, res_message := ''leader unavailable''\<rparr>)
     | Some leader \<Rightarrow>
         bindE (getE replicas) (\<lambda>rs.
         let result = result\<lparr>res_leader := replica_id (rs ! leader)\<rparr>;
             quorum = quorum_size (length rs)
         in
         bindE (on_replica leader (append_local command key val)) (\<lambda>entry.
         let prev_index = entry_index entry - 1
         in
         bindE (on_replica leader (term_at prev_index)) (\<lambda>prev_term.
         bindE (foldE (replicate_to leader entry prev_index prev_term) [0..<length rs] (1, [])) (\<lambda>acc.
         if fst acc < quorum
         then
           bindE (on_replica leader discard_uncommitted) (\<lambda>_.
           bindE (forE (snd acc) (\<lambda>i. on_replica i discard_uncommitted)) (\<lambda>_.
           ret (result\<lparr>res_status := 503, res_message :=
             ''write rejected because a majority could not acknowledge the log entry''\<rparr>)))
         else
           bindE (on_replica leader (commit_to (entry_index entry))) (\<lambda>_.
           bindE (forE (snd acc) (\<lambda>i.
             bindE (on_replica leader (getE id)) (\<lambda>l.
             bindE (on_replica i (append_entries (current_term l) (replica_id l)
               (entry_index entry) (entry_term entry) [] (entry_index entry))) (\<lambda>_. ret ())))) (\<lambda>_.
           ret (result\<lparr>res_ok := True,
             res_status := (if command = ''DELETE'' then 200 else 201),
             res_message := (if command = ''DELETE'' then ''deleted'' else ''stored'')\<rparr>))))))))))"

subsection \<open>The public operations\<close>

definition shard_put :: "string \<Rightarrow> string \<Rightarrow> (shard, operation_result) op" where
  "shard_put key val = replicate_command_locked ''PUT'' key val"

definition shard_erase :: "string \<Rightarrow> (shard, operation_result) op" where
  "shard_erase key = replicate_command_locked ''DELETE'' key []"

definition shard_get :: "string \<Rightarrow> (shard, operation_result) op" where
  "shard_get key =
     bindE (getE shard_id) (\<lambda>sid.
     let result = OperationResult\<lparr>res_shard := sid\<rparr>
     in
     bindE ensure_leader_locked (\<lambda>elected.
     if \<not> elected
     then ret (result\<lparr>res_status := 503,
       res_message := ''no quorum available for leader election''\<rparr>)
     else bindE current_leader_locked (\<lambda>lo.
     case lo of
       None \<Rightarrow> ret (result\<lparr>res_status := 503, res_message := ''leader unavailable''\<rparr>)
     | Some leader \<Rightarrow>
         bindE (getE replicas) (\<lambda>rs.
         let result = result\<lparr>res_leader := replica_id (rs ! leader)\<rparr>
         in
         bindE (on_replica leader (replica_get key)) (\<lambda>v.
         case v of
           None \<Rightarrow> ret (result\<lparr>res_status := 404, res_message := ''key not found''\<rparr>)
         | Some x \<Rightarrow> ret (result\<lparr>res_ok := True, res_status := 200, res_message := ''ok'',
             res_value := x\<rparr>))))))"

text \<open>The first replica with the given id.\<close>

definition find_replica :: "string \<Rightarrow> (shard, nat option) op" where
  "find_replica rid = getE (\<lambda>s.
     find (\<lambda>i. replica_id (replicas s ! i) = rid) [0..<length (replicas s)])"

definition shard_fail_replica :: "string \<Rightarrow> (shard, bool) op" where
  "shard_fail_replica rid =
     bindE (find_replica rid) (\<lambda>fo.
     case fo of
       None \<Rightarrow> ret False
     | Some i \<Rightarrow>
         bindE (on_replica i (set_online False)) (\<lambda>_.
         bindE (modifyE (\<lambda>s. if leader_id s = rid then s\<lparr>leader_id := []\<rparr> else s)) (\<lambda>_.
         ret True)))"

definition shard_recover_replica :: "string \<Rightarrow> (shard, bool) op" where
  "shard_recover_replica rid =
     bindE (find_replica rid) (\<lambda>fo.
     case fo of
       None \<Rightarrow> ret False
     | Some recovered \<Rightarrow>
         bindE (on_replica recovered (set_online True)) (\<lambda>_.
         bindE ensure_leader_locked (\<lambda>elected.
         bindE (if elected
                then bindE current_leader_locked (\<lambda>lo.
                  bindE (getE replicas) (\<lambda>rs.
                  case lo of
                    None \<Rightarrow> ret ()
                  | Some leader \<Rightarrow>
                      if replica_id (rs ! leader) \<noteq> replica_id (rs ! recovered)
                      then sync_follower_locked recovered leader else ret ()))
                else ret ()) (\<lambda>_.
         ret True))))"

definition shard_elect_leader :: "(shard, bool) op" where
  "shard_elect_leader = ensure_leader_locked"

definition shard_status_json :: "(shard, string) op" where
  "shard_status_json =
     bindE (getE id) (\<lambda>s.
     bindE (foldE (\<lambda>i out.
        bindE (on_replica i replica_status_json) (\<lambda>j.
        ret (out @ (if i > 0 then '','' else []) @ j))) [0..<length (replicas s)] []) (\<lambda>out.
     ret (''{\"shard\":'' @ nat_to_string (shard_id s) @
          '',\"leader\":\"'' @ json_escape (leader_id s) @ ''\"'' @
          '',\"replicas\":['' @ out @ '']}'')))"

subsection \<open>The constructor\<close>

text \<open>
  \<open>files\<close> gives the content of the database file of a replica, if it exists, and \<open>engine\<close> the
  schedule of engine errors of its connection.
\<close>

definition replica_name :: "nat \<Rightarrow> nat \<Rightarrow> string" where
  "replica_name sid i = ''s'' @ nat_to_string sid @ ''-r'' @ nat_to_string i"

type_synonym disk = "string \<Rightarrow> tables option"
type_synonym engine = "string \<Rightarrow> string option list"

fun open_replicas :: "nat \<Rightarrow> disk \<Rightarrow> engine \<Rightarrow> int \<Rightarrow> nat list \<Rightarrow> exn + raft_replica list" where
  "open_replicas sid files eng now [] = Inr []"
| "open_replicas sid files eng now (i # is) =
    (let rid = replica_name sid i
     in case RaftReplica rid sid (files rid) (eng rid) now of
          Inl e \<Rightarrow> Inl e
        | Inr r \<Rightarrow>
            (case open_replicas sid files eng now is of
               Inl e \<Rightarrow> Inl e
             | Inr rs \<Rightarrow> Inr (r # rs)))"

definition Shard :: "nat \<Rightarrow> nat \<Rightarrow> disk \<Rightarrow> engine \<Rightarrow> int \<Rightarrow> metrics \<Rightarrow> exn + shard" where
  "Shard sid replica_count files eng now m =
    (if replica_count < 1 then Inl (Invalid_argument ''replica_count must be at least 1'')
     else (case open_replicas sid files eng now [0..<replica_count] of
        Inl e \<Rightarrow> Inl e
      | Inr rs \<Rightarrow>
          (case shard_elect_leader \<lparr>shard_id = sid, replicas = rs, leader_id = [], shard_metrics = m\<rparr> of
             (Inl e, _) \<Rightarrow> Inl e
           | (Inr _, s) \<Rightarrow> Inr s)))"

end
