(* ===== verification/Replica_Props.thy ===== *)
theory Replica_Props
  imports Raft_Replica
begin

text \<open>
  What a replica guarantees. A replica is observed through three views of its database: the log
  as a list of rows (\<open>rep_log\<close>, the row of index \<open>i\<close> at position \<open>i - 1\<close>), the key-value state
  as a map (\<open>rep_kv\<close>) and the durable metadata (\<open>rep_meta\<close>). \<open>replay\<close> is the specification of
  the state machine: the map that a sequence of rows produces. \<open>replica_inv\<close> says that the
  key-value state is the replay of exactly the committed rows.
\<close>

named_theorems replica_simps \<open>views and fields of a replica after an update\<close>

subsection \<open>Views\<close>

definition rep_log :: "raft_replica \<Rightarrow> log_columns list" where
  "rep_log r = map snd (raft_log (db (store r)))"

definition rep_kv :: "raft_replica \<Rightarrow> string \<Rightarrow> string option" where
  "rep_kv r = (\<lambda>k. map_option fst (select_key k (kv_table (db (store r)))))"

definition rep_meta :: "raft_replica \<Rightarrow> string \<Rightarrow> string option" where
  "rep_meta r = (\<lambda>k. select_key k (meta_table (db (store r))))"

definition row_term :: "log_columns \<Rightarrow> int" where
  "row_term = fst"

text \<open>A row that the state machine accepts, with its text columns as the store keeps them.\<close>

definition valid_row :: "log_columns \<Rightarrow> bool" where
  "valid_row = (\<lambda>(t, c, k, v). (c = ''PUT'' \<or> c = ''DELETE'') \<and> c_str k = k)"

definition apply_row :: "log_columns \<Rightarrow> (string \<Rightarrow> string option) \<Rightarrow> string \<Rightarrow> string option" where
  "apply_row = (\<lambda>(t, c, k, v) m. if c = ''PUT'' then m(k \<mapsto> v) else m(k := None))"

definition replay :: "log_columns list \<Rightarrow> string \<Rightarrow> string option" where
  "replay rows = fold apply_row rows Map.empty"

definition storage_ok :: "raft_replica \<Rightarrow> bool" where
  "storage_ok r \<longleftrightarrow> healthy (store r) \<and> raft_log (db (store r)) = numbered (rep_log r) \<and>
     list_all valid_row (rep_log r) \<and>
     table_ok (kv_table (db (store r))) \<and> table_ok (meta_table (db (store r)))"

text \<open>The durable copy of a field: absent only while the field still has its initial value.\<close>

definition meta_is :: "string \<Rightarrow> string \<Rightarrow> bool \<Rightarrow> raft_replica \<Rightarrow> bool" where
  "meta_is key val initial r = (case rep_meta r key of None \<Rightarrow> initial | Some s \<Rightarrow> s = val)"

definition meta_ok :: "raft_replica \<Rightarrow> bool" where
  "meta_ok r \<longleftrightarrow>
     meta_is ''current_term'' (to_string (current_term r)) (current_term r = 0) r \<and>
     meta_is ''voted_for'' (c_str (voted_for r)) (voted_for r = []) r \<and>
     meta_is ''commit_index'' (to_string (commit_index r)) (commit_index r = 0) r \<and>
     meta_is ''last_applied'' (to_string (last_applied r)) (last_applied r = 0) r"

definition state_ok :: "raft_replica \<Rightarrow> bool" where
  "state_ok r \<longleftrightarrow> storage_ok r \<and> 0 \<le> commit_index r \<and>
     commit_index r \<le> int (length (rep_log r)) \<and> last_applied r = commit_index r \<and>
     rep_kv r = replay (take (nat (commit_index r)) (rep_log r))"

definition replica_inv :: "raft_replica \<Rightarrow> bool" where
  "replica_inv r \<longleftrightarrow> state_ok r \<and> meta_ok r"

lemma replay_snoc [simp]: "replay (rows @ [x]) = apply_row x (replay rows)"
  by (simp add: replay_def)

lemma replay_append: "replay (xs @ ys) = fold apply_row ys (replay xs)"
  by (simp add: replay_def)

lemma valid_row_entry_row [simp]:
  "valid_row (entry_row e) \<longleftrightarrow> c_str (entry_command e) = ''PUT'' \<or> c_str (entry_command e) = ''DELETE''"
  by (simp add: valid_row_def entry_row_def)

lemma row_term_entry_row [simp]: "row_term (entry_row e) = entry_term e"
  by (simp add: row_term_def entry_row_def)

lemma row_entry_sel [simp]:
  "entry_index (row_entry (i, row)) = i" "entry_term (row_entry (i, row)) = row_term row"
  by (simp_all add: row_entry_def row_term_def split: prod.splits)

lemma c_str_command [simp]: "c_str ''PUT'' = ''PUT''" "c_str ''DELETE'' = ''DELETE''"
  by (simp_all add: c_str_def)

lemma entry_row_row_entry: "valid_row row \<Longrightarrow> entry_row (row_entry (i, row)) = row"
  by (cases row) (auto simp: valid_row_def entry_row_def row_entry_def)

subsection \<open>Reading the log\<close>

lemma wp_on_store:
  "wp (on_store m) Q E r = wp m (\<lambda>x s. Q x (r\<lparr>store := s\<rparr>)) (\<lambda>e s. E e (r\<lparr>store := s\<rparr>)) (store r)"
  by (simp add: on_store_def)

lemma storage_okD:
  assumes "storage_ok r"
  shows "healthy (store r)" "raft_log (db (store r)) = numbered (rep_log r)"
    "list_all valid_row (rep_log r)" "table_ok (kv_table (db (store r)))"
    "table_ok (meta_table (db (store r)))"
  using assms by (simp_all add: storage_ok_def)

text \<open>The row with a given index, and the index and term of the last one.\<close>

definition row_at :: "int \<Rightarrow> log_columns list \<Rightarrow> log_columns option" where
  "row_at i rows = (if 1 \<le> i \<and> i \<le> int (length rows) then Some (rows ! nat (i - 1)) else None)"

definition last_term :: "log_columns list \<Rightarrow> int" where
  "last_term rows = (if rows = [] then 0 else row_term (last rows))"

lemma wp_log_at:
  "storage_ok r \<Longrightarrow> wp (on_store (log_at i)) Q E r =
     Q (map_option (\<lambda>row. row_entry (i, row)) (row_at i (rep_log r))) r"
  by (simp add: wp_on_store log_at_def wp_query storage_okD row_at_def select_key_numbered)

lemma wp_last_log_index:
  "storage_ok r \<Longrightarrow> wp last_log_index Q E r = Q (int (length (rep_log r))) r"
  by (simp add: wp_on_store last_log_index_def store_last_log_index_def wp_query storage_okD select_last_numbered)

lemma wp_last_log_term:
  "storage_ok r \<Longrightarrow> wp last_log_term Q E r = Q (last_term (rep_log r)) r"
  by (simp add: wp_on_store last_log_term_def store_last_log_term_def wp_query storage_okD select_last_numbered
      last_term_def row_term_def split: prod.splits)

lemma wp_logs_from:
  "storage_ok r \<Longrightarrow> wp (on_store (logs_from 1)) Q E r = Q (map row_entry (numbered (rep_log r))) r"
  by (simp add: wp_on_store logs_from_def wp_query storage_okD select_from_numbered)

lemma wp_term_at:
  "storage_ok r \<Longrightarrow> wp (term_at i) Q E r =
     Q (if i = 0 then 0 else case row_at i (rep_log r) of None \<Rightarrow> -1 | Some row \<Rightarrow> row_term row) r"
  by (auto simp: term_at_def wp_log_at option.map_sel split: option.splits)

subsection \<open>Writing the log\<close>

definition set_log :: "log_columns list \<Rightarrow> raft_replica \<Rightarrow> raft_replica" where
  "set_log rows r = r\<lparr>store := (store r)\<lparr>db := (db (store r))\<lparr>raft_log := numbered rows\<rparr>\<rparr>\<rparr>"

lemma set_log_views [replica_simps, simp]:
  "rep_log (set_log rows r) = rows" "rep_kv (set_log rows r) = rep_kv r"
  "rep_meta (set_log rows r) = rep_meta r"
  "replica_id (set_log rows r) = replica_id r" "online (set_log rows r) = online r"
  "replica_role (set_log rows r) = replica_role r" "current_term (set_log rows r) = current_term r"
  "voted_for (set_log rows r) = voted_for r" "commit_index (set_log rows r) = commit_index r"
  "last_applied (set_log rows r) = last_applied r"
  "replica_shard_id (set_log rows r) = replica_shard_id r"
  by (simp_all add: set_log_def rep_log_def rep_kv_def rep_meta_def)

lemma storage_ok_set_log [simp]:
  "storage_ok r \<Longrightarrow> storage_ok (set_log rows r) \<longleftrightarrow> list_all valid_row rows"
  by (simp add: storage_ok_def) (simp add: set_log_def)

lemma set_log_twice [simp]: "set_log rows (set_log rows' r) = set_log rows r"
  by (simp add: set_log_def)

lemma set_log_same [simp]: "storage_ok r \<Longrightarrow> set_log (rep_log r) r = r"
  using storage_okD(2) [of r] by (cases r, cases "store r", cases "db (store r)") (simp add: set_log_def)

lemma wp_append_log:
  assumes "storage_ok r" and "entry_index e = int (length (rep_log r)) + 1"
  shows "wp (on_store (append_log e)) Q E r = Q () (set_log (rep_log r @ [entry_row e]) r)"
  using storage_okD [OF assms(1)] assms(2)
  by (simp add: wp_on_store append_log_def wp_change set_log_def upsert_numbered)

lemma wp_truncate_log_from:
  "storage_ok r \<Longrightarrow> wp (on_store (truncate_log_from i)) Q E r =
     Q () (set_log (take (nat (i - 1)) (rep_log r)) r)"
  by (simp add: wp_on_store truncate_log_from_def wp_change storage_okD set_log_def delete_from_numbered)

subsection \<open>Writing the metadata\<close>

definition persisted :: "raft_replica \<Rightarrow> raft_replica" where
  "persisted r = r\<lparr>store := (store r)\<lparr>db := (db (store r))\<lparr>meta_table :=
     upsert ''last_applied'' (to_string (last_applied r))
       (upsert ''commit_index'' (to_string (commit_index r))
         (upsert ''voted_for'' (c_str (voted_for r))
           (upsert ''current_term'' (to_string (current_term r)) (meta_table (db (store r))))))\<rparr>\<rparr>\<rparr>"

lemma persisted_views [replica_simps, simp]:
  "rep_log (persisted r) = rep_log r" "rep_kv (persisted r) = rep_kv r"
  "replica_id (persisted r) = replica_id r" "online (persisted r) = online r"
  "replica_role (persisted r) = replica_role r" "current_term (persisted r) = current_term r"
  "voted_for (persisted r) = voted_for r" "commit_index (persisted r) = commit_index r"
  "last_applied (persisted r) = last_applied r"
  "replica_shard_id (persisted r) = replica_shard_id r"
  by (simp_all add: persisted_def rep_log_def rep_kv_def)

lemma storage_ok_persisted [simp]: "storage_ok r \<Longrightarrow> storage_ok (persisted r)"
  by (simp add: storage_ok_def) (simp add: persisted_def table_ok_upsert)

lemma rep_meta_persisted:
  "rep_meta (persisted r) = (rep_meta r)(''current_term'' \<mapsto> to_string (current_term r),
     ''voted_for'' \<mapsto> c_str (voted_for r), ''commit_index'' \<mapsto> to_string (commit_index r),
     ''last_applied'' \<mapsto> to_string (last_applied r))"
  by (simp add: rep_meta_def persisted_def select_key_def map_of_upsert fun_eq_iff)

lemma meta_ok_persisted [simp]: "meta_ok (persisted r)"
  by (simp add: meta_ok_def meta_is_def rep_meta_persisted)

lemma c_str_meta_keys [simp]:
  "c_str ''current_term'' = ''current_term''" "c_str ''voted_for'' = ''voted_for''"
  "c_str ''commit_index'' = ''commit_index''" "c_str ''last_applied'' = ''last_applied''"
  by (simp_all add: c_str_def)

lemma wp_persist_state: "storage_ok r \<Longrightarrow> wp persist_state Q E r = Q () (persisted r)"
  by (simp add: wp_on_store persist_state_def set_meta_def wp_change storage_okD persisted_def)

subsection \<open>Applying rows to the key-value state\<close>

definition kv_step :: "log_columns \<Rightarrow> raft_replica \<Rightarrow> raft_replica" where
  "kv_step = (\<lambda>(t, c, k, v) r. r\<lparr>store := (store r)\<lparr>db := (db (store r))\<lparr>kv_table :=
     (if c = ''PUT'' then upsert k (v, epoch (store r)) (kv_table (db (store r)))
      else delete_where (\<lambda>x. x = k) (kv_table (db (store r))))\<rparr>\<rparr>\<rparr>)"

lemma kv_step_views [replica_simps, simp]:
  "rep_log (kv_step row r) = rep_log r" "rep_meta (kv_step row r) = rep_meta r"
  "replica_id (kv_step row r) = replica_id r" "online (kv_step row r) = online r"
  "replica_role (kv_step row r) = replica_role r" "current_term (kv_step row r) = current_term r"
  "voted_for (kv_step row r) = voted_for r" "commit_index (kv_step row r) = commit_index r"
  "last_applied (kv_step row r) = last_applied r"
  "replica_shard_id (kv_step row r) = replica_shard_id r"
  by (simp_all add: kv_step_def rep_log_def rep_meta_def split: prod.splits)

lemma rep_kv_kv_step: "storage_ok r \<Longrightarrow> rep_kv (kv_step row r) = apply_row row (rep_kv r)"
  by (auto simp: rep_kv_def kv_step_def apply_row_def fun_eq_iff tbl.laws storage_okD split: prod.splits)

lemma storage_ok_kv_step [simp]: "storage_ok r \<Longrightarrow> storage_ok (kv_step row r)"
  by (simp add: storage_ok_def) (auto simp: kv_step_def tbl.laws split: prod.splits)

lemma wp_apply_entry:
  "storage_ok r \<Longrightarrow> valid_row row \<Longrightarrow> wp (apply_entry (row_entry (i, row))) Q E r = Q () (kv_step row r)"
  by (cases row) (auto simp: wp_on_store apply_entry_def row_entry_def valid_row_def kv_step_def store_put_def
      store_erase_def wp_change storage_okD)

text \<open>Bring the key-value state forward to the row with index \<open>target\<close>.\<close>

definition advance :: "int \<Rightarrow> raft_replica \<Rightarrow> raft_replica" where
  "advance target r =
    (if last_applied r < target
     then (fold kv_step (drop (nat (last_applied r)) (take (nat target) (rep_log r))) r)\<lparr>last_applied := target\<rparr>
     else r)"

lemma kv_step_last_applied: "kv_step row (r\<lparr>last_applied := i\<rparr>) = (kv_step row r)\<lparr>last_applied := i\<rparr>"
  by (simp add: kv_step_def split: prod.splits)

lemma fold_kv_step_last_applied:
  "fold kv_step rows (r\<lparr>last_applied := i\<rparr>) = (fold kv_step rows r)\<lparr>last_applied := i\<rparr>"
  by (induction rows arbitrary: r) (simp_all add: kv_step_last_applied)

lemma fold_kv_step_views:
  "rep_log (fold kv_step rows r) = rep_log r" "rep_meta (fold kv_step rows r) = rep_meta r"
  "replica_id (fold kv_step rows r) = replica_id r" "online (fold kv_step rows r) = online r"
  "replica_role (fold kv_step rows r) = replica_role r"
  "current_term (fold kv_step rows r) = current_term r"
  "voted_for (fold kv_step rows r) = voted_for r"
  "commit_index (fold kv_step rows r) = commit_index r"
  "last_applied (fold kv_step rows r) = last_applied r"
  "replica_shard_id (fold kv_step rows r) = replica_shard_id r"
  by (induction rows arbitrary: r) simp_all

lemma storage_ok_fold_kv_step: "storage_ok r \<Longrightarrow> storage_ok (fold kv_step rows r)"
  by (induction rows arbitrary: r) simp_all

lemma rep_kv_fold_kv_step:
  "storage_ok r \<Longrightarrow> rep_kv (fold kv_step rows r) = fold apply_row rows (rep_kv r)"
  by (induction rows arbitrary: r) (simp_all add: rep_kv_kv_step)

lemma last_applied_views [replica_simps, simp]:
  "rep_log (r\<lparr>last_applied := i\<rparr>) = rep_log r" "rep_kv (r\<lparr>last_applied := i\<rparr>) = rep_kv r"
  "rep_meta (r\<lparr>last_applied := i\<rparr>) = rep_meta r" "storage_ok (r\<lparr>last_applied := i\<rparr>) = storage_ok r"
  by (simp_all add: rep_log_def rep_kv_def rep_meta_def storage_ok_def)

lemma advance_views [replica_simps, simp]:
  "rep_log (advance i r) = rep_log r" "rep_meta (advance i r) = rep_meta r"
  "replica_id (advance i r) = replica_id r" "online (advance i r) = online r"
  "replica_role (advance i r) = replica_role r" "current_term (advance i r) = current_term r"
  "voted_for (advance i r) = voted_for r" "commit_index (advance i r) = commit_index r"
  "last_applied (advance i r) = max (last_applied r) i"
  "replica_shard_id (advance i r) = replica_shard_id r"
  by (auto simp: advance_def fold_kv_step_views max_def)

lemma storage_ok_advance [simp]: "storage_ok r \<Longrightarrow> storage_ok (advance i r)"
  by (simp add: advance_def storage_ok_fold_kv_step)

lemma rep_kv_advance:
  assumes "storage_ok r" and "0 \<le> last_applied r" and "last_applied r \<le> i"
    and "rep_kv r = replay (take (nat (last_applied r)) (rep_log r))"
  shows "rep_kv (advance i r) = replay (take (nat i) (rep_log r))"
proof (cases "last_applied r < i")
  case True
  let ?a = "nat (last_applied r)"
  have "take ?a (take (nat i) (rep_log r)) = take ?a (rep_log r)"
    using True by (simp add: min_absorb1)
  then have "take (nat i) (rep_log r) = take ?a (rep_log r) @ drop ?a (take (nat i) (rep_log r))"
    by (metis append_take_drop_id)
  then have "replay (take (nat i) (rep_log r)) =
      fold apply_row (drop ?a (take (nat i) (rep_log r))) (replay (take ?a (rep_log r)))"
    by (metis replay_append)
  then show ?thesis
    using True assms by (simp add: advance_def rep_kv_fold_kv_step)
next
  case False
  then show ?thesis using assms by (simp add: advance_def)
qed

text \<open>One more row: the loops apply the rows one by one.\<close>

lemma advance_step:
  assumes "0 \<le> last_applied r" and "last_applied r < target" and "target \<le> int (length (rep_log r))"
  shows "advance target r =
    advance target ((kv_step (rep_log r ! nat (last_applied r)) r)\<lparr>last_applied := last_applied r + 1\<rparr>)"
proof -
  let ?a = "nat (last_applied r)" and ?rows = "take (nat target) (rep_log r)"
  have lt: "?a < length ?rows" using assms by simp
  then have "drop ?a ?rows = ?rows ! ?a # drop (Suc ?a) ?rows"
    by (rule Cons_nth_drop_Suc [symmetric])
  moreover have "?rows ! ?a = rep_log r ! ?a" and "nat (last_applied r + 1) = Suc ?a"
    using assms(1,2) by simp_all
  ultimately show ?thesis
    using assms lt
    by (cases "last_applied r + 1 < target") (auto simp: advance_def fold_kv_step_last_applied)
qed

lemma row_at_next:
  "0 \<le> i \<Longrightarrow> i < int (length rows) \<Longrightarrow> row_at (i + 1) rows = Some (rows ! nat i)"
  by (simp add: row_at_def)

text \<open>Both loops unfold in the same way on a log without gaps.\<close>

lemma advance_loop:
  fixes loop :: "int \<Rightarrow> (raft_replica, unit) op"
  assumes stop: "\<And>r. target \<le> last_applied r \<Longrightarrow> wp (loop (last_applied r + 1)) Q E r = Q () r"
    and step: "\<And>r row. storage_ok r \<Longrightarrow> last_applied r < target \<Longrightarrow> valid_row row \<Longrightarrow>
      row_at (last_applied r + 1) (rep_log r) = Some row \<Longrightarrow>
      wp (loop (last_applied r + 1)) Q E r =
      wp (loop (last_applied r + 1 + 1)) Q E ((kv_step row r)\<lparr>last_applied := last_applied r + 1\<rparr>)"
    and r: "storage_ok r" "0 \<le> last_applied r" "target \<le> int (length (rep_log r))"
  shows "wp (loop (last_applied r + 1)) Q E r = Q () (advance target r)"
  using r
proof (induction "nat (target - last_applied r)" arbitrary: r)
  case 0
  then show ?case by (simp add: stop advance_def)
next
  case (Suc n)
  let ?row = "rep_log r ! nat (last_applied r)"
  let ?r = "(kv_step ?row r)\<lparr>last_applied := last_applied r + 1\<rparr>"
  have lt: "last_applied r < target" using Suc.hyps(2) by linarith
  then have "row_at (last_applied r + 1) (rep_log r) = Some ?row" and "valid_row ?row"
    using Suc.prems storage_okD(3) [OF Suc.prems(1)] by (auto simp: row_at_next list_all_length)
  then have "wp (loop (last_applied r + 1)) Q E r = wp (loop (last_applied r + 1 + 1)) Q E ?r"
    using lt Suc.prems by (intro step)
  also have "\<dots> = Q () (advance target ?r)"
    using Suc.hyps(1) [of ?r] Suc.hyps(2) Suc.prems lt by simp
  finally show ?case
    using advance_step [of r target] Suc.prems lt by simp
qed

lemma wp_apply_until:
  assumes "storage_ok r" and "0 \<le> last_applied r" and "target \<le> int (length (rep_log r))"
    and "i = last_applied r + 1"
  shows "wp (apply_until i target) Q E r = Q () (advance target r)"
  unfolding assms(4)
  by (rule advance_loop [of target "\<lambda>i. apply_until i target", OF _ _ assms(1-3)])
    (subst apply_until.simps, simp add: wp_log_at wp_apply_entry)+

lemma wp_apply_present:
  assumes "storage_ok r" and "0 \<le> last_applied r" and "target \<le> int (length (rep_log r))"
    and "i = last_applied r + 1"
  shows "wp (apply_present i target) Q E r = Q () (advance target r)"
  unfolding assms(4)
  by (rule advance_loop [of target "\<lambda>i. apply_present i target", OF _ _ assms(1-3)])
    (subst apply_present.simps, simp add: wp_log_at wp_apply_entry)+

subsection \<open>The operations on a replica without engine errors\<close>

lemma field_views [replica_simps, simp]:
  "rep_log (r\<lparr>current_term := t\<rparr>) = rep_log r" "rep_log (r\<lparr>voted_for := v\<rparr>) = rep_log r"
  "rep_log (r\<lparr>replica_role := x\<rparr>) = rep_log r" "rep_log (r\<lparr>commit_index := i\<rparr>) = rep_log r"
  "rep_log (r\<lparr>online := b\<rparr>) = rep_log r"
  "rep_kv (r\<lparr>current_term := t\<rparr>) = rep_kv r" "rep_kv (r\<lparr>voted_for := v\<rparr>) = rep_kv r"
  "rep_kv (r\<lparr>replica_role := x\<rparr>) = rep_kv r" "rep_kv (r\<lparr>commit_index := i\<rparr>) = rep_kv r"
  "rep_kv (r\<lparr>online := b\<rparr>) = rep_kv r"
  "rep_meta (r\<lparr>current_term := t\<rparr>) = rep_meta r" "rep_meta (r\<lparr>voted_for := v\<rparr>) = rep_meta r"
  "rep_meta (r\<lparr>replica_role := x\<rparr>) = rep_meta r" "rep_meta (r\<lparr>commit_index := i\<rparr>) = rep_meta r"
  "rep_meta (r\<lparr>online := b\<rparr>) = rep_meta r"
  "storage_ok (r\<lparr>current_term := t\<rparr>) = storage_ok r" "storage_ok (r\<lparr>voted_for := v\<rparr>) = storage_ok r"
  "storage_ok (r\<lparr>replica_role := x\<rparr>) = storage_ok r" "storage_ok (r\<lparr>commit_index := i\<rparr>) = storage_ok r"
  "storage_ok (r\<lparr>online := b\<rparr>) = storage_ok r"
  by (simp_all add: rep_log_def rep_kv_def rep_meta_def storage_ok_def)

text \<open>The log comparison of \<open>request_vote\<close>: last term first, then length.\<close>

definition up_to_date :: "int \<Rightarrow> int \<Rightarrow> log_columns list \<Rightarrow> bool" where
  "up_to_date last_index last_trm rows =
     (last_trm > last_term rows \<or> last_trm = last_term rows \<and> last_index \<ge> int (length rows))"

lemma voted_for_role_commute:
  "r\<lparr>voted_for := v, replica_role := x\<rparr> = r\<lparr>replica_role := x, voted_for := v\<rparr>"
  by simp

lemma wp_request_vote_new_term:
  assumes "storage_ok r" and "online r" and "current_term r < trm"
  shows "wp (request_vote trm c li lt) Q E r =
    (let g = up_to_date li lt (rep_log r)
     in Q g (persisted (r\<lparr>current_term := trm, voted_for := (if g then c else []), replica_role := Follower\<rparr>)))"
  using assms by (auto simp: request_vote_def wp_last_log_term wp_last_log_index wp_persist_state
      up_to_date_def Let_def voted_for_role_commute)

text \<open>\<open>append_entries\<close> on entries that continue the log: merging the entries into the rows.\<close>

definition accept_entry :: "log_entry \<Rightarrow> log_columns list \<Rightarrow> log_columns list" where
  "accept_entry e rows =
    (case row_at (entry_index e) rows of
       Some row \<Rightarrow>
         if row_term row = entry_term e then rows
         else take (nat (entry_index e - 1)) rows @ [entry_row e]
     | None \<Rightarrow> rows @ [entry_row e])"

lemma row_at_cases:
  assumes "1 \<le> i"
  obtains "i \<le> int (length rows)" "row_at i rows = Some (rows ! nat (i - 1))"
  | "int (length rows) < i" "row_at i rows = None"
  using assms by (cases "i \<le> int (length rows)") (auto simp: row_at_def)

lemma wp_append_entry:
  assumes "storage_ok r" and "1 \<le> entry_index e" and "entry_index e \<le> int (length (rep_log r)) + 1"
    and "valid_row (entry_row e)"
  shows "wp (append_entry e) Q E r = Q () (set_log (accept_entry e (rep_log r)) r)"
proof (cases rule: row_at_cases [OF assms(2), of "rep_log r"])
  case 1
  let ?cut = "take (nat (entry_index e - 1)) (rep_log r)"
  have "list_all valid_row ?cut"
    using storage_okD(3) [OF assms(1)] by (simp add: list_all_iff) (meson in_set_takeD)
  moreover have "int (length ?cut) + 1 = entry_index e" "row_at (entry_index e) ?cut = None"
    using 1(1) assms(2) by (auto simp: row_at_def)
  ultimately show ?thesis
    using assms 1 by (auto simp: append_entry_def wp_log_at wp_truncate_log_from wp_append_log accept_entry_def)
next
  case 2
  then show ?thesis
    using assms by (simp add: append_entry_def wp_log_at wp_append_log accept_entry_def)
qed

fun chained :: "int \<Rightarrow> log_entry list \<Rightarrow> bool" where
  "chained i [] = True"
| "chained i (e # es) = (entry_index e = i \<and> valid_row (entry_row e) \<and> chained (i + 1) es)"

lemma accept_entry_props:
  assumes "entry_index e = int n + 1" and "n \<le> length rows"
  shows "n < length (accept_entry e rows)"
    and "take n (accept_entry e rows) = take n rows"
    and "row_term (accept_entry e rows ! n) = entry_term e"
    and "list_all valid_row rows \<Longrightarrow> valid_row (entry_row e) \<Longrightarrow> list_all valid_row (accept_entry e rows)"
proof -
  have row: "row_at (entry_index e) rows = (if n < length rows then Some (rows ! n) else None)"
    using assms(1) by (auto simp: row_at_def)
  then show "n < length (accept_entry e rows)"
    and "take n (accept_entry e rows) = take n rows"
    and "row_term (accept_entry e rows ! n) = entry_term e"
    using assms by (auto simp: accept_entry_def nth_append)
  show "list_all valid_row (accept_entry e rows)" if "list_all valid_row rows" "valid_row (entry_row e)"
    using that by (auto simp: accept_entry_def list_all_iff dest: in_set_takeD split: option.splits)
qed

lemma wp_append_loop:
  "storage_ok r \<Longrightarrow> n \<le> length (rep_log r) \<Longrightarrow> chained (int n + 1) es \<Longrightarrow>
    wp (forE es append_entry) Q E r = Q () (set_log (fold accept_entry es (rep_log r)) r)"
proof (induction es arbitrary: n r)
  case Nil
  then show ?case by simp
next
  case (Cons e es)
  let ?r = "set_log (accept_entry e (rep_log r)) r"
  have e: "entry_index e = int n + 1" and es: "chained (int (Suc n) + 1) es" "valid_row (entry_row e)"
    using Cons.prems(3) by (simp_all add: add.commute)
  have "storage_ok ?r"
    using Cons.prems(1) es accept_entry_props(4) [OF e Cons.prems(2)] storage_okD(3) by simp
  moreover have "Suc n \<le> length (rep_log ?r)"
    using accept_entry_props(1) [OF e Cons.prems(2)] by simp
  ultimately show ?case
    using Cons.prems(1,2) Cons.IH [of ?r "Suc n"] e es by (simp add: wp_append_entry)
qed

lemma fold_accept_entry:
  "n \<le> length rows \<Longrightarrow> chained (int n + 1) es \<Longrightarrow>
    take n (fold accept_entry es rows) = take n rows \<and>
    n + length es \<le> length (fold accept_entry es rows) \<and>
    (\<forall>k < length es. row_term (fold accept_entry es rows ! (n + k)) = entry_term (es ! k)) \<and>
    (list_all valid_row rows \<longrightarrow> list_all valid_row (fold accept_entry es rows))"
proof (induction es arbitrary: n rows)
  case Nil
  then show ?case by simp
next
  case (Cons e es)
  let ?rows = "accept_entry e rows" and ?final = "fold accept_entry es (accept_entry e rows)"
  have e: "entry_index e = int n + 1" and es: "chained (int (Suc n) + 1) es" "valid_row (entry_row e)"
    using Cons.prems(2) by (simp_all add: add.commute)
  note props = accept_entry_props [OF e Cons.prems(1)]
  have IH: "take (Suc n) ?final = take (Suc n) ?rows" "Suc n + length es \<le> length ?final"
    "\<forall>k < length es. row_term (?final ! (Suc n + k)) = entry_term (es ! k)"
    "list_all valid_row ?rows \<longrightarrow> list_all valid_row ?final"
    using Cons.IH [of "Suc n" ?rows] props(1) es(1) by auto
  have "take n (take (Suc n) ?final) = take n (take (Suc n) ?rows)"
    by (simp only: IH(1))
  then have "take n ?final = take n rows"
    using props(2) by simp
  moreover have n: "?final ! n = ?rows ! n"
    by (metis IH(1) lessI nth_take)
  moreover have "row_term (?final ! (n + k)) = entry_term ((e # es) ! k)" if "k < length (e # es)" for k
    using that IH(3) n props(3) by (cases k) auto
  ultimately show ?case
    using IH(2,4) props(4) es(2) by simp
qed

subsection \<open>Committing\<close>

text \<open>The last part of \<open>append_entries\<close>: follow the leader's commit index as far as the log goes.\<close>

definition follow_commit :: "int \<Rightarrow> raft_replica \<Rightarrow> raft_replica" where
  "follow_commit leader_commit r =
    (let n = min leader_commit (int (length (rep_log r)))
     in if n > commit_index r then (advance n r)\<lparr>commit_index := n\<rparr> else r)"

lemma follow_commit_views [replica_simps, simp]:
  "rep_log (follow_commit i r) = rep_log r"
  "replica_id (follow_commit i r) = replica_id r" "online (follow_commit i r) = online r"
  "replica_role (follow_commit i r) = replica_role r"
  "current_term (follow_commit i r) = current_term r" "voted_for (follow_commit i r) = voted_for r"
  "replica_shard_id (follow_commit i r) = replica_shard_id r"
  "commit_index (follow_commit i r) = max (commit_index r) (min i (int (length (rep_log r))))"
  by (auto simp: follow_commit_def Let_def)

lemma state_ok_follow_commit: "state_ok r \<Longrightarrow> state_ok (follow_commit i r)"
  by (auto simp: state_ok_def follow_commit_def Let_def rep_kv_advance)

lemma replica_inv_persisted [simp]: "replica_inv (persisted r) \<longleftrightarrow> state_ok (persisted r)"
  by (simp add: replica_inv_def)

lemma state_ok_persisted [simp]: "state_ok r \<Longrightarrow> state_ok (persisted r)"
  by (simp add: state_ok_def)

lemma state_ok_fields [simp]:
  "state_ok (r\<lparr>current_term := t\<rparr>) = state_ok r" "state_ok (r\<lparr>voted_for := v\<rparr>) = state_ok r"
  "state_ok (r\<lparr>replica_role := x\<rparr>) = state_ok r" "state_ok (r\<lparr>online := b\<rparr>) = state_ok r"
  by (simp_all add: state_ok_def)

lemma state_ok_set_log:
  assumes "state_ok r" and "list_all valid_row rows"
    and "take (nat (commit_index r)) rows = take (nat (commit_index r)) (rep_log r)"
  shows "state_ok (set_log rows r)"
proof -
  have "length (take (nat (commit_index r)) (rep_log r)) = nat (commit_index r)"
    using assms(1) by (auto simp: state_ok_def min_def)
  then have "nat (commit_index r) \<le> length rows"
    by (metis assms(3) length_take min.absorb_iff2)
  then show ?thesis using assms by (auto simp: state_ok_def)
qed

lemma set_current_term_same: "current_term r = t \<Longrightarrow> r\<lparr>current_term := t\<rparr> = r"
  by (cases r) simp

text \<open>The log is as the leader expects at \<open>prev\<close>, and the entries continue it there.\<close>

lemma wp_append_entries:
  assumes r: "state_ok r" "online r" "current_term r \<le> trm"
    and prev: "n \<le> length (rep_log r)" "0 < n \<Longrightarrow> row_term (rep_log r ! (n - 1)) = prev_term"
    and es: "chained (int n + 1) es" "nat (commit_index r) \<le> length (fold accept_entry es (rep_log r))"
  shows "wp (append_entries trm leader (int n) prev_term es leader_commit) Q E r =
    Q True (persisted (follow_commit leader_commit (set_log (fold accept_entry es (rep_log r))
      (r\<lparr>current_term := trm, replica_role := Follower, voted_for := leader\<rparr>))))"
proof -
  let ?r = "r\<lparr>current_term := trm, replica_role := Follower, voted_for := leader\<rparr>"
  have ok: "storage_ok r" "last_applied r = commit_index r" "0 \<le> commit_index r"
    using r by (simp_all add: state_ok_def)
  have rows: "list_all valid_row (fold accept_entry es (rep_log r))"
    using fold_accept_entry [OF prev(1) es(1)] storage_okD(3) [OF ok(1)] by simp
  have match: "row_at (int n) (rep_log r) = Some (rep_log r ! (n - 1))" if "0 < n"
    using that prev(1) by (simp add: row_at_def nat_diff_distrib)
  have tail: "wp (append_entries_tail es leader_commit) Q E s = Q True (persisted (follow_commit
      leader_commit (set_log (fold accept_entry es (rep_log r)) s)))"
    if "storage_ok s" "rep_log s = rep_log r" "last_applied s = commit_index s"
      "commit_index s = commit_index r" for s
    using that prev(1) es(1) rows ok
    by (simp add: append_entries_tail_def wp_append_loop [of s n] wp_last_log_index wp_apply_until
        wp_persist_state follow_commit_def Let_def)
  have "?r = r\<lparr>replica_role := Follower, voted_for := leader\<rparr>" if "\<not> current_term r < trm"
    using that r(3) set_current_term_same [of r trm] by simp
  then show ?thesis
    using r(2,3) ok prev(2) match
    by (cases "0 < n") (auto simp: append_entries_def wp_log_at tail)
qed

lemma set_commit_index_same: "commit_index r = i \<Longrightarrow> r\<lparr>commit_index := i\<rparr> = r"
  by (cases r) simp

lemma wp_commit_to:
  assumes "state_ok r" and "online r"
  shows "wp (commit_to i) Q E r = Q () (persisted (follow_commit i r))"
proof -
  let ?n = "min i (int (length (rep_log r)))"
  have ok: "storage_ok r" "0 \<le> last_applied r" "last_applied r = commit_index r"
    using assms(1) by (simp_all add: state_ok_def)
  then have "wp (commit_to i) Q E r =
      Q () (persisted ((advance ?n r)\<lparr>commit_index := max (commit_index r) ?n\<rparr>))"
    using assms(2) by (simp add: commit_to_def wp_last_log_index wp_apply_until wp_persist_state Let_def)
  also have "(advance ?n r)\<lparr>commit_index := max (commit_index r) ?n\<rparr> = follow_commit i r"
  proof (cases "commit_index r < ?n")
    case True
    then show ?thesis by (simp add: follow_commit_def Let_def)
  next
    case False
    then have "advance ?n r = r" and "follow_commit i r = r"
      using ok(3) by (simp_all only: advance_def follow_commit_def Let_def if_False)
    moreover have "max (commit_index r) ?n = commit_index r"
      using False by linarith
    ultimately show ?thesis by (simp only: set_commit_index_same)
  qed
  finally show ?thesis .
qed

lemma wp_append_local:
  "storage_ok r \<Longrightarrow> online r \<Longrightarrow> replica_role r = Leader \<Longrightarrow>
    wp (append_local c k v) Q E r =
    (let e = \<lparr>entry_index = int (length (rep_log r)) + 1, entry_term = current_term r,
       entry_command = c, entry_key = k, entry_value = v\<rparr>
     in Q e (set_log (rep_log r @ [entry_row e]) r))"
  by (simp add: append_local_def wp_last_log_index wp_append_log Let_def)

lemma wp_discard_uncommitted:
  "storage_ok r \<Longrightarrow> wp discard_uncommitted Q E r =
    Q () (set_log (take (nat (commit_index r)) (rep_log r)) r)"
  by (simp add: discard_uncommitted_def wp_truncate_log_from)

lemma wp_replica_get:
  "storage_ok r \<Longrightarrow> online r \<Longrightarrow> wp (replica_get k) Q E r = Q (rep_kv r (c_str k)) r"
  by (simp add: replica_get_def wp_on_store store_get_def wp_query storage_okD rep_kv_def)

subsection \<open>Snapshots\<close>

definition snapshot_of :: "int \<Rightarrow> log_columns list \<Rightarrow> replica_snapshot" where
  "snapshot_of t rows = \<lparr>snap_term = t, snap_commit_index = int (length rows),
     snap_log = map row_entry (numbered rows)\<rparr>"

lemma take_numbered: "take n (numbered rows) = numbered (take n rows)"
  by (rule nth_equalityI) (auto simp: numbered_nth)

lemma wp_export_snapshot:
  assumes "state_ok r"
  shows "wp export_snapshot Q E r =
    Q (snapshot_of (current_term r) (take (nat (commit_index r)) (rep_log r))) r"
proof -
  have "nat (commit_index r) \<le> length (rep_log r)" "0 \<le> commit_index r" "storage_ok r"
    using assms by (auto simp: state_ok_def)
  then show ?thesis
    by (auto simp: export_snapshot_def wp_logs_from snapshot_of_def as_size_def take_map take_numbered)
qed

definition cleared :: "raft_replica \<Rightarrow> raft_replica" where
  "cleared r = r\<lparr>store := (store r)\<lparr>db := no_rows\<rparr>\<rparr>"

definition installed :: "int \<Rightarrow> log_columns list \<Rightarrow> raft_replica \<Rightarrow> raft_replica" where
  "installed t rows r = persisted ((advance (int (length rows)) (set_log rows
     ((cleared r)\<lparr>current_term := max (current_term r) t, voted_for := [], replica_role := Follower,
       commit_index := 0, last_applied := 0\<rparr>)))\<lparr>commit_index := int (length rows)\<rparr>)"

lemma cleared_views [simp]:
  "rep_log (cleared r) = []" "rep_kv (cleared r) = Map.empty" "storage_ok r \<Longrightarrow> storage_ok (cleared r)"
  "replica_id (cleared r) = replica_id r" "online (cleared r) = online r"
  "current_term (cleared r) = current_term r" "replica_shard_id (cleared r) = replica_shard_id r"
  by (simp_all add: cleared_def rep_log_def rep_kv_def storage_ok_def no_rows_def select_key_def)

lemma installed_views [replica_simps, simp]:
  "rep_log (installed t rows r) = rows" "commit_index (installed t rows r) = int (length rows)"
  "replica_id (installed t rows r) = replica_id r" "online (installed t rows r) = online r"
  "current_term (installed t rows r) = max (current_term r) t"
  "voted_for (installed t rows r) = []" "replica_role (installed t rows r) = Follower"
  "replica_shard_id (installed t rows r) = replica_shard_id r"
  by (simp_all add: installed_def)

lemma replica_inv_installed:
  "storage_ok r \<Longrightarrow> list_all valid_row rows \<Longrightarrow> replica_inv (installed t rows r)"
  by (simp add: installed_def state_ok_def rep_kv_advance replay_def)

lemma wp_append_rows:
  "storage_ok r \<Longrightarrow> list_all valid_row rows \<Longrightarrow> rep_log r = done \<Longrightarrow> length done = n \<Longrightarrow>
    wp (forE (map row_entry (drop n (numbered (done @ rows)))) (\<lambda>e. on_store (append_log e))) Q E r =
    Q () (set_log (done @ rows) r)"
proof (induction rows arbitrary: r "done" n)
  case Nil
  then show ?case by (auto simp flip: Nil.prems(3))
next
  case (Cons row rows)
  let ?r = "set_log (done @ [row]) r"
  have "drop n (numbered (done @ row # rows)) = (int n + 1, row) # drop (Suc n) (numbered (done @ row # rows))"
    using Cons.prems(4) by (subst Cons_nth_drop_Suc [symmetric]) (auto simp: numbered_nth)
  moreover have "storage_ok ?r"
    using Cons.prems storage_okD(3) [OF Cons.prems(1)] by simp
  ultimately show ?case
    using Cons.IH [of ?r "done @ [row]" "Suc n"] Cons.prems
    by (simp add: wp_append_log entry_row_row_entry)
qed

lemma wp_install_snapshot:
  assumes "storage_ok r" and "online r" and "list_all valid_row rows"
  shows "wp (install_snapshot (snapshot_of t rows)) Q E r = Q () (installed t rows r)"
proof -
  let ?r = "(cleared r)\<lparr>current_term := max (current_term r) t, voted_for := [],
    replica_role := Follower, commit_index := 0, last_applied := 0\<rparr>"
  have "wp (forE (map row_entry (numbered rows)) (\<lambda>e. on_store (append_log e))) Q' E ?r =
      Q' () (set_log rows ?r)" for Q'
    using wp_append_rows [of ?r rows "[]" 0] assms by simp
  moreover have "wp (on_store clear_all) Q' E r = Q' () (cleared r)" for Q'
    using assms(1) by (simp add: wp_on_store wp_clear_all storage_okD cleared_def)
  ultimately show ?thesis
    using assms by (simp add: install_snapshot_def snapshot_of_def wp_last_log_index wp_apply_present
        wp_persist_state installed_def Let_def)
qed

end
