(* ===== verification/Shard_Invariant.thy ===== *)
theory Shard_Invariant
  imports Shard Replica_Props "HOL-Library.Sublist"
begin

text \<open>
  The invariant of a shard while its replicas fail and recover.

  \<open>shard_inv s g\<close> says that \<open>g\<close> is the committed log of the shard: every replica, online or not,
  holds a prefix of \<open>g\<close> with nothing uncommitted behind it, a majority holds all of \<open>g\<close>, and the
  leader, if there is one, holds all of \<open>g\<close> in the highest term and is the only one to play the
  role. The key-value content of the shard is the replay of \<open>g\<close>. The theory also has the rules for
  loops over the replicas and the order in which candidates are compared.
\<close>

subsection \<open>Running an operation on several replicas\<close>

lemma wp_on_replica [simp]:
  "wp (on_replica i m) Q E s =
    wp m (\<lambda>x r. Q x (s\<lparr>replicas := (replicas s)[i := r]\<rparr>))
      (\<lambda>e r. E e (s\<lparr>replicas := (replicas s)[i := r]\<rparr>)) (replicas s ! i)"
  by (simp add: on_replica_def)

lemma set_replicas_same [simp]: "s\<lparr>replicas := replicas s\<rparr> = s"
  by (cases s) simp

lemma list_update_other [simp]: "i \<noteq> j \<Longrightarrow> xs[i := x, j := xs ! j] = xs[i := x]"
  by (metis list_update_id nth_list_update_neq)

text \<open>The replicas at the positions \<open>ps\<close> changed by \<open>g\<close>.\<close>

definition upd_all :: "nat list \<Rightarrow> (nat \<Rightarrow> 'a \<Rightarrow> 'a) \<Rightarrow> 'a list \<Rightarrow> 'a list" where
  "upd_all ps g rs = map (\<lambda>i. if i \<in> set ps then g i (rs ! i) else rs ! i) [0..<length rs]"

lemma length_upd_all [simp]: "length (upd_all ps g rs) = length rs"
  by (simp add: upd_all_def)

lemma nth_upd_all [simp]:
  "i < length rs \<Longrightarrow> upd_all ps g rs ! i = (if i \<in> set ps then g i (rs ! i) else rs ! i)"
  by (simp add: upd_all_def)

lemma upd_all_Nil [simp]: "upd_all [] g rs = rs"
  by (rule nth_equalityI) simp_all

lemma upd_all_step:
  "i < length rs \<Longrightarrow> i \<notin> set ds \<Longrightarrow> (upd_all ds g rs)[i := g i (rs ! i)] = upd_all (i # ds) g rs"
  by (rule nth_equalityI) (auto simp: nth_list_update)

lemma upd_all_set_cong: "set ps = set js \<Longrightarrow> upd_all ps g rs = upd_all js g rs"
  by (simp add: upd_all_def)

text \<open>A loop whose body changes only its own replica, and what it reads elsewhere stays.\<close>

lemma wp_foldE_replicas:
  fixes s :: shard
  assumes "distinct ps"
    and body: "\<And>i ds acc Q. i \<in> set ps \<Longrightarrow> i \<notin> set ds \<Longrightarrow> set ds \<subseteq> set ps \<Longrightarrow>
      wp (f i acc) Q E (s\<lparr>replicas := upd_all ds g (replicas s)\<rparr>) =
      Q (h i acc) (s\<lparr>replicas := upd_all (i # ds) g (replicas s)\<rparr>)"
  shows "wp (foldE f ps acc) Q E s =
    Q (fold h ps acc) (s\<lparr>replicas := upd_all ps g (replicas s)\<rparr>)"
proof -
  have "wp (foldE f js acc) Q E (s\<lparr>replicas := upd_all ds g (replicas s)\<rparr>) =
      Q (fold h js acc) (s\<lparr>replicas := upd_all (rev js @ ds) g (replicas s)\<rparr>)"
    if "set js \<subseteq> set ps" "distinct js" "set ds \<subseteq> set ps" "set js \<inter> set ds = {}" for js ds acc
    using that
  proof (induction js arbitrary: ds acc)
    case Nil
    then show ?case by simp
  next
    case (Cons i js)
    then show ?case using Cons.IH [of "i # ds"] body [of i ds] by auto
  qed
  from this [of "ps" "[]"] assms(1) show ?thesis
    by (simp add: upd_all_set_cong [of "rev ps" "ps"])
qed

lemma wp_forE_replicas:
  fixes s :: shard
  assumes "distinct ps"
    and body: "\<And>i ds Q. i \<in> set ps \<Longrightarrow> i \<notin> set ds \<Longrightarrow> set ds \<subseteq> set ps \<Longrightarrow>
      wp (f i) Q E (s\<lparr>replicas := upd_all ds g (replicas s)\<rparr>) =
      Q () (s\<lparr>replicas := upd_all (i # ds) g (replicas s)\<rparr>)"
  shows "wp (forE ps f) Q E s = Q () (s\<lparr>replicas := upd_all ps g (replicas s)\<rparr>)"
proof -
  have "wp (forE ps f) Q E s = wp (foldE (\<lambda>i _. f i) ps ()) Q E s" for Q
  proof -
    have "forE ps f t = foldE (\<lambda>i _. f i) ps () t" for t
    proof (induction "ps" arbitrary: t)
      case (Cons i js)
      have "forE js f = foldE (\<lambda>i _. f i) js ()" using Cons by blast
      then show ?case by (simp add: bindE_def split: prod.splits sum.splits)
    qed simp
    then show ?thesis by (simp add: wp_def)
  qed
  then show ?thesis
    using wp_foldE_replicas [OF assms(1), where f = "\<lambda>i _. f i" and h = "\<lambda>_ _. ()" and acc = "()"
        and E = E and s = s and g = g and Q = Q] body by simp
qed

subsection \<open>The candidate order\<close>

text \<open>How far a replica has come, in the order of the comparator.\<close>

datatype progress = Progress (prog_commit: int) (prog_term: int) (prog_length: int)

instantiation progress :: linorder
begin

definition less_eq_progress :: "progress \<Rightarrow> progress \<Rightarrow> bool" where
  "less_eq_progress a b \<longleftrightarrow> prog_commit a < prog_commit b \<or> prog_commit a = prog_commit b \<and>
     (prog_term a < prog_term b \<or> prog_term a = prog_term b \<and> prog_length a \<le> prog_length b)"

definition less_progress :: "progress \<Rightarrow> progress \<Rightarrow> bool" where
  "less_progress a b \<longleftrightarrow> prog_commit a < prog_commit b \<or> prog_commit a = prog_commit b \<and>
     (prog_term a < prog_term b \<or> prog_term a = prog_term b \<and> prog_length a < prog_length b)"

instance
  by standard (auto simp: less_eq_progress_def less_progress_def intro: progress.expand)

end

definition progress_of :: "raft_replica \<Rightarrow> progress" where
  "progress_of r = Progress (commit_index r) (last_term (rep_log r)) (int (length (rep_log r)))"

definition stores_ok :: "shard \<Rightarrow> bool" where
  "stores_ok s \<longleftrightarrow> (\<forall>i < length (replicas s). storage_ok (replicas s ! i))"

lemma wp_candidate_less:
  "stores_ok s \<Longrightarrow> a < length (replicas s) \<Longrightarrow> b < length (replicas s) \<Longrightarrow>
    wp (candidate_less a b) Q E s = Q (progress_of (replicas s ! a) < progress_of (replicas s ! b)) s"
  by (simp add: candidate_less_def wp_last_log_term wp_last_log_index stores_ok_def
      less_progress_def progress_of_def)

fun first_max :: "('a \<Rightarrow> 'b::linorder) \<Rightarrow> 'a \<Rightarrow> 'a list \<Rightarrow> 'a" where
  "first_max f b [] = b"
| "first_max f b (x # xs) = first_max f (if f b < f x then x else b) xs"

lemma first_max_props:
  "first_max f b xs \<in> set (b # xs)" "\<forall>x \<in> set (b # xs). f x \<le> f (first_max f b xs)"
proof (induction xs arbitrary: b)
  case Nil
  { case 1 then show ?case by simp }
  { case 2 then show ?case by simp }
next
  case (Cons x xs)
  { case 1 show ?case using Cons.IH(1) [of "if f b < f x then x else b"] by (auto split: if_splits) }
  { case 2 show ?case using Cons.IH(2) [of "if f b < f x then x else b"] by (auto split: if_splits) }
qed

lemma wp_max_element:
  "stores_ok s \<Longrightarrow> set (b # xs) \<subseteq> {..<length (replicas s)} \<Longrightarrow>
    wp (max_element b xs) Q E s = Q (first_max (\<lambda>i. progress_of (replicas s ! i)) b xs) s"
  by (induction xs arbitrary: b) (auto simp: wp_candidate_less)

subsection \<open>The invariant\<close>

definition log_wf :: "log_columns list \<Rightarrow> bool" where
  "log_wf g \<longleftrightarrow> sorted (map row_term g) \<and> (\<forall>row \<in> set g. 0 \<le> row_term row)"

text \<open>A replica at rest: everything in its log is committed, and is part of the shard's log.\<close>

definition settled :: "raft_replica \<Rightarrow> log_columns list \<Rightarrow> bool" where
  "settled r g \<longleftrightarrow> replica_inv r \<and> commit_index r = int (length (rep_log r)) \<and>
     prefix (rep_log r) g \<and> (\<forall>row \<in> set (rep_log r). row_term row \<le> current_term r)"

definition holders :: "shard \<Rightarrow> log_columns list \<Rightarrow> nat set" where
  "holders s g = {i. i < length (replicas s) \<and> rep_log (replicas s ! i) = g}"

definition leader_ok :: "shard \<Rightarrow> log_columns list \<Rightarrow> nat \<Rightarrow> bool" where
  "leader_ok s g l \<longleftrightarrow> l < length (replicas s) \<and> replica_id (replicas s ! l) = leader_id s \<and>
     online (replicas s ! l) \<and> replica_role (replicas s ! l) = Leader \<and> rep_log (replicas s ! l) = g \<and>
     0 < current_term (replicas s ! l) \<and>
     (\<forall>j < length (replicas s). current_term (replicas s ! j) \<le> current_term (replicas s ! l))"

definition ids_ok :: "shard \<Rightarrow> bool" where
  "ids_ok s \<longleftrightarrow> replicas s \<noteq> [] \<and> distinct (map replica_id (replicas s)) \<and>
     (\<forall>i < length (replicas s). replica_id (replicas s ! i) \<noteq> [])"

text \<open>Only the recorded leader plays the role.\<close>

definition roles_ok :: "shard \<Rightarrow> bool" where
  "roles_ok s \<longleftrightarrow> (\<forall>i < length (replicas s). replica_role (replicas s ! i) = Leader \<longrightarrow>
     replica_id (replicas s ! i) = leader_id s)"

definition shard_inv :: "shard \<Rightarrow> log_columns list \<Rightarrow> bool" where
  "shard_inv s g \<longleftrightarrow> ids_ok s \<and> (\<forall>i < length (replicas s). settled (replicas s ! i) g) \<and> log_wf g \<and>
     quorum_size (length (replicas s)) \<le> card (holders s g) \<and> roles_ok s \<and>
     (leader_id s \<noteq> [] \<longrightarrow> (\<exists>l. leader_ok s g l))"

text \<open>The positions of the replicas that are online.\<close>

definition online_list :: "shard \<Rightarrow> nat list" where
  "online_list s = filter (\<lambda>i. online (replicas s ! i)) [0..<length (replicas s)]"

definition has_quorum :: "shard \<Rightarrow> bool" where
  "has_quorum s \<longleftrightarrow> quorum_size (length (replicas s)) \<le> length (online_list s)"

interpretation quorums: majority quorum_size
  by unfold_locales (simp_all add: quorum_size_def)

lemma online_list_props [simp]:
  "distinct (online_list s)" "i \<in> set (online_list s) \<longleftrightarrow> i < length (replicas s) \<and> online (replicas s ! i)"
  by (auto simp: online_list_def)

lemma settledD:
  assumes "settled r g"
  shows "storage_ok r" "state_ok r" "replica_inv r" "commit_index r = int (length (rep_log r))"
    "prefix (rep_log r) g" "list_all valid_row (rep_log r)" "rep_kv r = replay (rep_log r)"
  using assms by (auto simp: settled_def replica_inv_def state_ok_def storage_okD)

lemma shard_invD:
  assumes "shard_inv s g" and "i < length (replicas s)"
  shows "settled (replicas s ! i) g"
  using assms by (simp add: shard_inv_def)

lemma shard_inv_stores_ok: "shard_inv s g \<Longrightarrow> stores_ok s"
  using settledD(1) by (auto simp: shard_inv_def stores_ok_def)

lemma find_unique:
  "i < n \<Longrightarrow> (\<And>j. j < n \<Longrightarrow> P j \<longleftrightarrow> j = i) \<Longrightarrow> find P [0..<n] = Some i"
  by (auto simp: find_Some_iff intro!: exI [of _ i])

lemma replica_id_eq:
  "ids_ok s \<Longrightarrow> i < length (replicas s) \<Longrightarrow> j < length (replicas s) \<Longrightarrow>
    replica_id (replicas s ! i) = replica_id (replicas s ! j) \<longleftrightarrow> i = j"
  by (auto simp: ids_ok_def distinct_conv_nth)

lemma wp_current_leader:
  assumes "ids_ok s" and "leader_ok s g l"
  shows "wp current_leader_locked Q E s = Q (Some l) s"
proof -
  have l: "l < length (replicas s)" "leader_id s = replica_id (replicas s ! l)" "online (replicas s ! l)"
    using assms(2) by (simp_all add: leader_ok_def)
  then have "find (\<lambda>i. replica_id (replicas s ! i) = leader_id s \<and> online (replicas s ! i))
      [0..<length (replicas s)] = Some l"
    using replica_id_eq [OF assms(1)] by (intro find_unique) auto
  then show ?thesis by (simp add: current_leader_locked_def)
qed

lemma wp_current_leader_none:
  assumes "ids_ok s" and "leader_id s = []"
  shows "wp current_leader_locked Q E s = Q None s"
proof -
  have "find (\<lambda>i. replica_id (replicas s ! i) = leader_id s \<and> online (replicas s ! i))
      [0..<length (replicas s)] = None"
    using assms by (auto simp: find_None_iff ids_ok_def)
  then show ?thesis by (simp add: current_leader_locked_def)
qed

end
