(* ===== verification/Shard_Election.thy ===== *)
theory Shard_Election
  imports Shard_Invariant
begin

text \<open>
  \<open>ensure_leader_locked\<close> on a shard that satisfies its invariant: the state after an election is
  given in closed form (\<open>elected\<close>), the winner holds the whole committed log because two majorities
  intersect, and the invariant is kept.
\<close>

subsection \<open>Elections\<close>

text \<open>Two majorities meet: among a majority that is online, the best candidate holds everything.\<close>

lemma candidate_has_all:
  assumes inv: "shard_inv s g" and q: "has_quorum s"
    and c: "c \<in> set (online_list s)"
      "\<forall>i \<in> set (online_list s). progress_of (replicas s ! i) \<le> progress_of (replicas s ! c)"
  shows "rep_log (replicas s ! c) = g"
proof -
  have "card (set (online_list s)) = length (online_list s)"
    by (simp add: distinct_card)
  then have "set (online_list s) \<inter> holders s g \<noteq> {}"
    using inv q by (intro quorums.quorums_intersect [of _ "length (replicas s)"])
      (auto simp: holders_def shard_inv_def has_quorum_def)
  then obtain i where i: "i \<in> set (online_list s)" "rep_log (replicas s ! i) = g"
    unfolding holders_def by blast
  have set: "settled (replicas s ! i) g" "settled (replicas s ! c) g"
    using i(1) c(1) inv by (auto intro: shard_invD)
  have "progress_of (replicas s ! i) \<le> progress_of (replicas s ! c)"
    using c(2) i(1) by blast
  then have "commit_index (replicas s ! i) \<le> commit_index (replicas s ! c)"
    by (auto simp: less_eq_progress_def progress_of_def)
  then have "length g \<le> length (rep_log (replicas s ! c))"
    using settledD(4) [OF set(1)] settledD(4) [OF set(2)] i(2) by simp
  then show ?thesis
    using settledD(5) [OF set(2)] by (auto simp: prefix_def)
qed

lemma last_term_prefix:
  assumes "log_wf g" and "prefix rows g"
  shows "last_term rows \<le> last_term g"
proof (cases "rows = []")
  case True
  then show ?thesis
    using assms(1) by (auto simp: last_term_def log_wf_def)
next
  case False
  then obtain ys where g: "g = rows @ ys" using assms(2) by (auto simp: prefix_def)
  show ?thesis
  proof (cases "ys = []")
    case True
    then show ?thesis using g by simp
  next
    case ne: False
    have "sorted (map row_term rows @ map row_term ys)"
      using assms(1) g by (simp add: log_wf_def)
    then have "row_term (last rows) \<le> row_term (last ys)"
      using False ne by (auto simp: sorted_append)
    then show ?thesis using False ne g by (simp add: last_term_def)
  qed
qed

lemma prefix_up_to_date:
  "log_wf g \<Longrightarrow> prefix rows g \<Longrightarrow> up_to_date (int (length g)) (last_term g) rows"
  using last_term_prefix [of g rows] prefix_length_le [of rows g] by (auto simp: up_to_date_def)

lemma fold_max_term_ge: "acc \<le> fold (\<lambda>r acc. max acc (current_term r + 1)) rs acc"
proof (induction rs arbitrary: acc)
  case (Cons r rs)
  show ?case using Cons.IH [of "max acc (current_term r + 1)"] by simp
qed simp

lemma fold_max_term_greater:
  "r \<in> set rs \<Longrightarrow> current_term r < fold (\<lambda>r acc. max acc (current_term r + 1)) rs acc"
proof (induction rs arbitrary: acc)
  case (Cons x rs)
  show ?case
    using Cons fold_max_term_ge [of "max acc (current_term x + 1)" rs] by auto
qed simp

lemma next_term_greater: "r \<in> set rs \<Longrightarrow> current_term r < next_term rs"
  by (simp add: next_term_def fold_max_term_greater)

lemma next_term_positive: "0 < next_term rs"
  using fold_max_term_ge [of 1 rs] by (simp add: next_term_def)

subsection \<open>What an election does\<close>

definition voted :: "int \<Rightarrow> string \<Rightarrow> raft_replica \<Rightarrow> raft_replica" where
  "voted t cid r = persisted (r\<lparr>current_term := t, replica_role := Follower, voted_for := cid\<rparr>)"

lemma voted_views [replica_simps, simp]:
  "rep_log (voted t cid r) = rep_log r" "rep_kv (voted t cid r) = rep_kv r"
  "replica_id (voted t cid r) = replica_id r" "online (voted t cid r) = online r"
  "current_term (voted t cid r) = t" "commit_index (voted t cid r) = commit_index r"
  "replica_role (voted t cid r) = Follower" "voted_for (voted t cid r) = cid"
  "storage_ok r \<Longrightarrow> storage_ok (voted t cid r)" "state_ok r \<Longrightarrow> state_ok (voted t cid r)"
  "meta_ok (voted t cid r)"
  by (simp_all add: voted_def)

lemma wp_request_vote_voted:
  "storage_ok r \<Longrightarrow> online r \<Longrightarrow> current_term r < t \<Longrightarrow> up_to_date li lt (rep_log r) \<Longrightarrow>
    wp (request_vote t cid li lt) Q E r = Q True (voted t cid r)"
  by (simp add: wp_request_vote_new_term voted_def voted_for_role_commute Let_def)

lemma wp_sync_follower:
  assumes "storage_ok (replicas s ! i)" and "online (replicas s ! i)" and "state_ok (replicas s ! c)"
    and "commit_index (replicas s ! c) = int (length g)" and "take (length g) (rep_log (replicas s ! c)) = g"
  shows "wp (sync_follower_locked i c) Q E s = Q () (s\<lparr>replicas := (replicas s)
    [i := installed (current_term (replicas s ! c)) g (replicas s ! i)]\<rparr>)"
proof -
  have "list_all valid_row (rep_log (replicas s ! c))"
    using assms(3) by (simp add: state_ok_def storage_okD)
  then have "list_all valid_row (take (length g) (rep_log (replicas s ! c)))"
    by (auto simp: list_all_iff dest: in_set_takeD)
  then show ?thesis
    using assms by (simp add: sync_follower_locked_def is_online_def wp_export_snapshot wp_install_snapshot)
qed

text \<open>The replicas after position \<open>c\<close> won the election of term \<open>t\<close>.\<close>

definition elected_replica :: "int \<Rightarrow> string \<Rightarrow> nat \<Rightarrow> log_columns list \<Rightarrow> nat \<Rightarrow> raft_replica \<Rightarrow> raft_replica" where
  "elected_replica t cid c g i r =
    (if i = c then (voted t cid r)\<lparr>replica_role := Leader\<rparr>
     else if online r then installed t g ((voted t cid r)\<lparr>replica_role := Follower\<rparr>)
     else r\<lparr>replica_role := Follower\<rparr>)"

definition elected :: "int \<Rightarrow> nat \<Rightarrow> log_columns list \<Rightarrow> shard \<Rightarrow> shard" where
  "elected t c g s =
    (let cid = replica_id (replicas s ! c)
     in s\<lparr>leader_id := cid,
          replicas := upd_all [0..<length (replicas s)] (elected_replica t cid c g) (replicas s),
          shard_metrics := inc_election (shard_metrics s)\<rparr>)"

lemma wp_collect_votes:
  assumes "\<And>i. i \<in> set voters \<Longrightarrow> i < length (replicas s) \<and> storage_ok (replicas s ! i) \<and>
      online (replicas s ! i) \<and> current_term (replicas s ! i) < t \<and>
      up_to_date li lt (rep_log (replicas s ! i))"
    and "distinct voters"
  shows "wp (collect_votes t cid li lt voters) Q E s =
    Q (length voters) (s\<lparr>replicas := upd_all voters (\<lambda>_. voted t cid) (replicas s)\<rparr>)"
proof -
  have "fold (\<lambda>_ n. n + 1) voters (k :: nat) = k + length voters" for k
    by (induction voters arbitrary: k) auto
  then show ?thesis
    unfolding collect_votes_def using assms
    by (subst wp_foldE_replicas [where g = "\<lambda>_. voted t cid" and h = "\<lambda>_ n. n + 1"])
      (auto simp: wp_request_vote_voted upd_all_step [where g = "\<lambda>_. voted t cid"])
qed

lemma voted_role [simp]: "voted t cid (r\<lparr>replica_role := x\<rparr>) = voted t cid r"
  by (simp add: voted_def)

lemma wp_set_role [simp]: "wp (set_role x) Q E r = Q () (r\<lparr>replica_role := x\<rparr>)"
  by (simp add: set_role_def)

lemma wp_set_roles:
  "n = length (replicas s) \<Longrightarrow> wp (forE [0..<n] (\<lambda>i. on_replica i (set_role x))) Q E s =
    Q () (s\<lparr>replicas := upd_all [0..<n] (\<lambda>_ r. r\<lparr>replica_role := x\<rparr>) (replicas s)\<rparr>)"
  by (rule wp_forE_replicas)
    (auto simp: upd_all_step [where g = "\<lambda>_ r. r\<lparr>replica_role := x\<rparr>"])

text \<open>The loop that brings every other online replica to the state of the new leader.\<close>

lemma wp_sync_all:
  assumes "\<And>i. i \<in> set ps \<Longrightarrow> i < length (replicas s) \<and> storage_ok (replicas s ! i) \<and> online (replicas s ! i)"
    and c: "c < length (replicas s)" "state_ok (replicas s ! c)" "rep_log (replicas s ! c) = g"
      "commit_index (replicas s ! c) = int (length g)" "current_term (replicas s ! c) = t"
    and P: "\<And>i. i \<in> set ps \<Longrightarrow> P i \<longleftrightarrow> i \<noteq> c"
    and "distinct ps"
  shows "wp (forE ps (\<lambda>i. if P i then sync_follower_locked i c else ret ())) Q E s =
    Q () (s\<lparr>replicas := upd_all ps (\<lambda>i r. if i = c then r else installed t g r) (replicas s)\<rparr>)"
proof (rule wp_forE_replicas [OF \<open>distinct ps\<close>])
  fix i ds Q
  let ?g = "\<lambda>i r. if i = c then r else installed t g r"
  let ?s = "s\<lparr>replicas := upd_all ds ?g (replicas s)\<rparr>"
  assume i: "i \<in> set ps" "i \<notin> set ds" "set ds \<subseteq> set ps"
  note i' = assms(1) [OF i(1)]
  show "wp (if P i then sync_follower_locked i c else ret ()) Q E ?s =
      Q () (s\<lparr>replicas := upd_all (i # ds) ?g (replicas s)\<rparr>)"
  proof (cases "i = c")
    case True
    then have "upd_all (i # ds) ?g (replicas s) = upd_all ds ?g (replicas s)"
      by (intro nth_equalityI) auto
    then show ?thesis using True P [OF i(1)] by simp
  next
    case False
    have "wp (sync_follower_locked i c) Q E ?s =
        Q () (?s\<lparr>replicas := (replicas ?s)[i := installed (current_term (replicas ?s ! c)) g (replicas ?s ! i)]\<rparr>)"
      using i i' c by (intro wp_sync_follower) auto
    then show ?thesis
      using False P [OF i(1)] i i' c upd_all_step [of i "replicas s" ds ?g] by simp
  qed
qed

lemma wp_ensure_leader_elect:
  assumes inv: "shard_inv s g" and none: "leader_id s = []" and q: "has_quorum s"
  shows "\<exists>c < length (replicas s). online (replicas s ! c) \<and> rep_log (replicas s ! c) = g \<and>
    (\<forall>Q E. wp ensure_leader_locked Q E s = Q True (elected (next_term (replicas s)) c g s))"
proof -
  let ?rs = "replicas s" and ?onl = "online_list s" and ?t = "next_term (replicas s)"
  define c where "c = first_max (\<lambda>i. progress_of (?rs ! i)) (hd ?onl) (tl ?onl)"
  define cid where "cid = replica_id (?rs ! c)"
  have ids: "ids_ok s" and wf: "log_wf g" using inv by (simp_all add: shard_inv_def)
  have "?onl \<noteq> []" using q quorums.positive [of "length ?rs"] by (auto simp: has_quorum_def)
  then have cons: "hd ?onl # tl ?onl = ?onl" by simp
  then have c: "c \<in> set ?onl" "\<forall>i \<in> set ?onl. progress_of (?rs ! i) \<le> progress_of (?rs ! c)"
    using first_max_props [where f = "\<lambda>i. progress_of (?rs ! i)" and b = "hd ?onl" and xs = "tl ?onl"] by (simp_all add: c_def)
  have log: "rep_log (?rs ! c) = g" by (rule candidate_has_all [OF inv q c])
  have lt: "c < length ?rs" "online (?rs ! c)" using c(1) by simp_all
  have set: "settled (?rs ! i) g" if "i < length ?rs" for i using inv that by (rule shard_invD)
  have voter: "i < length ?rs \<and> storage_ok (?rs ! i) \<and> online (?rs ! i) \<and>
      current_term (?rs ! i) < ?t \<and> up_to_date (int (length g)) (last_term g) (rep_log (?rs ! i))"
    if "i \<in> set ?onl" for i
    using that settledD(1,5) [OF set] next_term_greater [of "?rs ! i" ?rs] wf by (auto intro: prefix_up_to_date)
  let ?s0 = "s\<lparr>replicas := ?rs[c := (?rs ! c)\<lparr>replica_role := Candidate\<rparr>]\<rparr>"
  have votes: "wp (collect_votes ?t cid (int (length g)) (last_term g) ?onl) Q E ?s0 =
      Q (length ?onl) (s\<lparr>replicas := upd_all ?onl (\<lambda>_. voted ?t cid) ?rs\<rparr>)" for Q E
  proof -
    have "upd_all ?onl (\<lambda>_. voted ?t cid) (replicas ?s0) = upd_all ?onl (\<lambda>_. voted ?t cid) ?rs"
      using c(1) by (intro nth_equalityI) (auto simp: nth_list_update)
    moreover have "wp (collect_votes ?t cid (int (length g)) (last_term g) ?onl) Q E ?s0 =
        Q (length ?onl) (?s0\<lparr>replicas := upd_all ?onl (\<lambda>_. voted ?t cid) (replicas ?s0)\<rparr>)"
      using voter lt by (intro wp_collect_votes) (auto simp: nth_list_update)
    ultimately show ?thesis by simp
  qed
  let ?rs1 = "upd_all ?onl (\<lambda>_. voted ?t cid) ?rs"
  let ?rs2 = "upd_all [0..<length ?rs] (\<lambda>_ r. r\<lparr>replica_role := Follower\<rparr>) ?rs1"
  let ?rs3 = "?rs2[c := (voted ?t cid (?rs ! c))\<lparr>replica_role := Leader\<rparr>]"
  let ?s3 = "s\<lparr>replicas := ?rs3, leader_id := cid\<rparr>"
  have sync: "wp (forE ?onl (\<lambda>i. if replica_id (?rs ! i) \<noteq> cid then sync_follower_locked i c else ret ())) Q E ?s3 =
      Q () (?s3\<lparr>replicas := upd_all ?onl (\<lambda>i r. if i = c then r else installed ?t g r) ?rs3\<rparr>)" for Q E
    using wp_sync_all [where s = ?s3 and ps = ?onl and c = c and g = g and t = ?t]
      c(1) lt log settledD(1,2,4) [OF set] replica_id_eq [OF ids]
    by (simp add: cid_def nth_list_update)
  have final: "upd_all ?onl (\<lambda>i r. if i = c then r else installed ?t g r) ?rs3 =
      upd_all [0..<length ?rs] (elected_replica ?t cid c g) ?rs"
    using lt by (intro nth_equalityI) (auto simp: elected_replica_def nth_list_update)
  have max: "wp (max_element (hd ?onl) (tl ?onl)) Q E s = Q c s" for Q E
    unfolding c_def using cons shard_inv_stores_ok [OF inv] by (intro wp_max_element) auto
  have last: "wp last_log_index Q E ((?rs ! c)\<lparr>replica_role := x\<rparr>) = Q (int (length g)) ((?rs ! c)\<lparr>replica_role := x\<rparr>)"
      "wp last_log_term Q E ((?rs ! c)\<lparr>replica_role := x\<rparr>) = Q (last_term g) ((?rs ! c)\<lparr>replica_role := x\<rparr>)"
    for Q E x
    using settledD(1) [OF set] lt log by (simp_all add: wp_last_log_index wp_last_log_term)
  have "wp ensure_leader_locked Q E s = Q True (elected ?t c g s)" for Q E
    using q lt
    by (simp add: ensure_leader_locked_def wp_current_leader_none [OF ids none] Let_def
        has_quorum_def online_list_def [symmetric] max last votes wp_set_roles sync final
        count_metric_def elected_def cid_def [symmetric])
  then show ?thesis using lt log by blast
qed

text \<open>Two shards with the same replicas, up to their state.\<close>

definition same_group :: "shard \<Rightarrow> shard \<Rightarrow> bool" where
  "same_group s s' \<longleftrightarrow> shard_id s' = shard_id s \<and> length (replicas s') = length (replicas s) \<and>
     (\<forall>i < length (replicas s). replica_id (replicas s' ! i) = replica_id (replicas s ! i) \<and>
        online (replicas s' ! i) = online (replicas s ! i))"

lemma same_groupD:
  assumes "same_group s s'"
  shows "online_list s' = online_list s" "has_quorum s' = has_quorum s" "ids_ok s' = ids_ok s"
proof -
  have ids: "map replica_id (replicas s') = map replica_id (replicas s)"
    using assms by (intro nth_equalityI) (auto simp: same_group_def)
  show on: "online_list s' = online_list s"
    using assms by (auto simp: same_group_def online_list_def intro: filter_cong)
  show "has_quorum s' = has_quorum s"
    using on assms by (simp add: has_quorum_def same_group_def)
  show "ids_ok s' = ids_ok s"
    using ids assms by (auto simp: ids_ok_def same_group_def)
qed

lemma same_group_trans: "same_group a b \<Longrightarrow> same_group b c \<Longrightarrow> same_group a c"
  by (simp add: same_group_def)

lemma same_group_refl [simp]: "same_group s s"
  by (simp add: same_group_def)

lemma settled_installed:
  "storage_ok r \<Longrightarrow> list_all valid_row g \<Longrightarrow> \<forall>row \<in> set g. row_term row \<le> t \<Longrightarrow> settled (installed t g r) g"
  by (force simp: settled_def replica_inv_installed)

lemma settled_role [simp]: "settled (r\<lparr>replica_role := x\<rparr>) g = settled r g"
  by (simp add: settled_def replica_inv_def meta_ok_def meta_is_def)

lemma settled_voted: "settled r g \<Longrightarrow> current_term r \<le> t \<Longrightarrow> settled (voted t cid r) g"
  by (force simp: settled_def replica_inv_def)

lemma elected_props:
  assumes inv: "shard_inv s g" and c: "c < length (replicas s)" "online (replicas s ! c)"
      "rep_log (replicas s ! c) = g"
    and t: "t = next_term (replicas s)"
  shows "same_group s (elected t c g s)" and "leader_ok (elected t c g s) g c"
    and "shard_inv (elected t c g s) g"
proof -
  let ?s = "elected t c g s" and ?rs = "replicas s" and ?cid = "replica_id (replicas s ! c)"
  have nth: "replicas ?s ! i = elected_replica t ?cid c g i (?rs ! i)" if "i < length ?rs" for i
    using that by (simp add: elected_def Let_def)
  have len: "length (replicas ?s) = length ?rs" "leader_id ?s = ?cid" "shard_id ?s = shard_id s"
    by (simp_all add: elected_def Let_def)
  have lt: "current_term (?rs ! i) < t" if "i < length ?rs" for i
    using that t by (auto intro: next_term_greater)
  have pos: "0 < t" using t next_term_positive by simp
  have set: "settled (?rs ! i) g" if "i < length ?rs" for i using inv that by (rule shard_invD)
  show group: "same_group s ?s"
    by (simp add: same_group_def len nth elected_replica_def)
  show leader: "leader_ok ?s g c"
    using c lt pos by (auto simp: leader_ok_def len nth elected_replica_def less_imp_le max_def)
  have rows: "list_all valid_row g" "\<forall>row \<in> set g. row_term row \<le> t"
    using settledD(6) [OF set [OF c(1)]] set [OF c(1)] lt [OF c(1)] c(3) by (force simp: settled_def)+
  have "settled (replicas ?s ! i) g" if "i < length ?rs" for i
    using that set [OF that] less_imp_le [OF lt [OF that]] rows settledD(1) [OF set [OF that]]
    by (auto simp: nth elected_replica_def settled_voted settled_installed)
  moreover have "roles_ok ?s"
    by (simp add: roles_ok_def len nth elected_replica_def)
  moreover have "holders s g \<subseteq> holders ?s g"
    by (rule subsetI) (simp add: holders_def len nth elected_replica_def c(3))
  then have "card (holders s g) \<le> card (holders ?s g)"
    by (intro card_mono) (auto simp: holders_def)
  ultimately show "shard_inv ?s g"
    using inv leader same_groupD(3) [OF group] len(1) by (auto simp: shard_inv_def)
qed

text \<open>What \<open>ensure_leader_locked\<close> does from any state between two operations.\<close>

lemma ensure_leader_ok:
  assumes inv: "shard_inv s g" and "leader_id s \<noteq> [] \<or> has_quorum s"
  shows "\<exists>s' l. (\<forall>Q E. wp ensure_leader_locked Q E s = Q True s') \<and> shard_inv s' g \<and>
    leader_ok s' g l \<and> same_group s s' \<and> (leader_id s \<noteq> [] \<longrightarrow> s' = s)"
proof (cases "leader_id s = []")
  case True
  then obtain c where "c < length (replicas s)" "online (replicas s ! c)" "rep_log (replicas s ! c) = g"
    and "\<forall>Q E. wp ensure_leader_locked Q E s = Q True (elected (next_term (replicas s)) c g s)"
    using wp_ensure_leader_elect [OF inv True] assms(2) by auto
  then show ?thesis
    using elected_props [OF inv] True
    by (intro exI [of _ "elected (next_term (replicas s)) c g s"] exI [of _ c]) simp
next
  case False
  then obtain l where l: "leader_ok s g l" and "ids_ok s" using inv by (auto simp: shard_inv_def)
  then have "wp ensure_leader_locked Q E s = Q True s" for Q E
    by (simp add: ensure_leader_locked_def wp_current_leader)
  then show ?thesis using l inv by (intro exI [of _ s] exI [of _ l]) simp
qed

lemma ensure_leader_fails:
  assumes "shard_inv s g" and "leader_id s = []" and "\<not> has_quorum s"
  shows "wp ensure_leader_locked Q E s = Q False s"
proof -
  have same: "s\<lparr>leader_id := []\<rparr> = s" using assms(2) by (cases s) simp
  have "ids_ok s" using assms(1) by (simp add: shard_inv_def)
  then show ?thesis
    using assms(2,3) by (simp add: same ensure_leader_locked_def wp_current_leader_none has_quorum_def
        online_list_def Let_def)
qed

end
