(* ===== verification/Shard_Replication.thy ===== *)
theory Shard_Replication
  imports Shard_Election
begin

text \<open>
  The loops of \<open>replicate_command_locked\<close>: bringing followers up to date, appending the new row,
  then either committing it everywhere or withdrawing it, each in closed form over the leader and
  the followers that are online (\<open>group_update\<close>).
\<close>

subsection \<open>Replication\<close>

text \<open>A follower that the leader of term \<open>t\<close> with log \<open>g\<close> brought up to date, and gave one more row.\<close>

definition followed :: "int \<Rightarrow> string \<Rightarrow> log_columns list \<Rightarrow> raft_replica \<Rightarrow> raft_replica" where
  "followed t lid g r =
    (if rep_log r = g then r else installed t g r)\<lparr>current_term := t, replica_role := Follower, voted_for := lid\<rparr>"

definition replicated :: "int \<Rightarrow> string \<Rightarrow> log_columns list \<Rightarrow> log_columns \<Rightarrow> raft_replica \<Rightarrow> raft_replica" where
  "replicated t lid g row r = persisted (set_log (g @ [row]) (followed t lid g r))"

lemma followed_views [simp]:
  "replica_id (followed t lid g r) = replica_id r" "online (followed t lid g r) = online r"
  "current_term (followed t lid g r) = t" "rep_log (followed t lid g r) = g"
  "replica_role (followed t lid g r) = Follower"
  by (simp_all add: followed_def)

lemma state_ok_followed:
  "settled r g \<Longrightarrow> list_all valid_row g \<Longrightarrow> state_ok (followed t lid g r)"
  using replica_inv_installed settledD(1,2) by (simp add: followed_def replica_inv_def)

lemma commit_index_followed:
  "settled r g \<Longrightarrow> commit_index (followed t lid g r) = int (length g)"
  by (simp add: followed_def settledD)

lemma replicated_views [simp]:
  "replica_id (replicated t lid g row r) = replica_id r" "online (replicated t lid g row r) = online r"
  "current_term (replicated t lid g row r) = t" "rep_log (replicated t lid g row r) = g @ [row]"
  "replica_role (replicated t lid g row r) = Follower"
  by (simp_all add: replicated_def)

lemma settled_log_eq: "settled r g \<Longrightarrow> commit_index r = int (length g) \<Longrightarrow> rep_log r = g"
  using settledD(4,5) [of r g] by (auto simp: prefix_def)

lemma follow_commit_same [simp]: "i \<le> commit_index r \<Longrightarrow> follow_commit i r = r"
  by (simp add: follow_commit_def Let_def)

lemma accept_entry_next:
  "entry_index e = int (length g) + 1 \<Longrightarrow> accept_entry e g = g @ [entry_row e]"
  by (simp add: accept_entry_def row_at_def)

lemma wp_append_entries_next:
  assumes "state_ok r" "online r" "current_term r \<le> t" "rep_log r = g" "commit_index r = int (length g)"
    and e: "entry_index e = int (length g) + 1" "valid_row (entry_row e)"
  shows "wp (append_entries t lid (int (length g)) (last_term g) [e] (int (length g))) Q E r =
    Q True (persisted (set_log (g @ [entry_row e]) (r\<lparr>current_term := t, replica_role := Follower, voted_for := lid\<rparr>)))"
  using assms
  by (subst wp_append_entries)
    (auto simp: last_term_def last_conv_nth accept_entry_next)

lemma wp_replicate_to:
  assumes ids: "ids_ok s" and l: "l < length (replicas s)" "i < length (replicas s)"
    and L: "state_ok (replicas s ! l)" "commit_index (replicas s ! l) = int (length g)"
      "take (length g) (rep_log (replicas s ! l)) = g" "current_term (replicas s ! l) = t"
      "replica_id (replicas s ! l) = lid"
    and f: "settled (replicas s ! i) g" "current_term (replicas s ! i) \<le> t" "list_all valid_row g"
    and e: "entry_index e = int (length g) + 1" "valid_row (entry_row e)"
  shows "wp (replicate_to l e (int (length g)) (last_term g) i acc) Q E s =
    (if i = l \<or> \<not> online (replicas s ! i) then Q acc s
     else Q (fst acc + 1, snd acc @ [i])
       (s\<lparr>replicas := (replicas s)[i := replicated t lid g (entry_row e) (replicas s ! i)]\<rparr>))"
proof (cases "i = l \<or> \<not> online (replicas s ! i)")
  case True
  then show ?thesis by (auto simp: replicate_to_def)
next
  case False
  let ?f = "replicas s ! i"
  have ne: "replica_id ?f \<noteq> lid" "i \<noteq> l" "l \<noteq> i" "online ?f"
    using False replica_id_eq [OF ids l(2) l(1)] L(5) by auto
  have stale: "rep_log ?f = g \<longleftrightarrow> commit_index ?f = int (length g)"
    using settled_log_eq [OF f(1)] settledD(4) [OF f(1)] by auto
  have next': "wp (append_entries t lid (int (length g)) (last_term g) [e] (int (length g))) Q E r =
      Q True (persisted (set_log (g @ [entry_row e]) (r\<lparr>current_term := t, replica_role := Follower, voted_for := lid\<rparr>)))"
    if "r = ?f \<and> rep_log ?f = g \<or> r = installed t g ?f" for r Q E
    using that f e ne(4) replica_inv_installed [of ?f g t] settledD [OF f(1)]
    by (intro wp_append_entries_next) (auto simp: replica_inv_def)
  show ?thesis
    using ne l L f stale settledD(1,2,4) [OF f(1)]
    by (auto simp: replicate_to_def wp_last_log_index wp_sync_follower [where g = g]
        next' replicated_def followed_def)
qed

text \<open>The leader at position \<open>l\<close> changed by \<open>fl\<close>, every other online replica by \<open>fo\<close>.\<close>

definition group_update :: "nat \<Rightarrow> (raft_replica \<Rightarrow> raft_replica) \<Rightarrow> (raft_replica \<Rightarrow> raft_replica) \<Rightarrow> shard \<Rightarrow> shard" where
  "group_update l fl fo s = s\<lparr>replicas := upd_all [0..<length (replicas s)]
     (\<lambda>i r. if i = l then fl r else if online r then fo r else r) (replicas s)\<rparr>"

definition followers :: "nat \<Rightarrow> shard \<Rightarrow> nat list" where
  "followers l s = filter (\<lambda>i. i \<noteq> l) (online_list s)"

lemma group_update_sel [simp]:
  "shard_id (group_update l fl fo s) = shard_id s" "leader_id (group_update l fl fo s) = leader_id s"
  "length (replicas (group_update l fl fo s)) = length (replicas s)"
  "i < length (replicas s) \<Longrightarrow> replicas (group_update l fl fo s) ! i =
     (if i = l then fl (replicas s ! i) else if online (replicas s ! i) then fo (replicas s ! i) else replicas s ! i)"
  by (simp_all add: group_update_def)

lemma followers_props [simp]:
  "distinct (followers l s)"
  "i \<in> set (followers l s) \<longleftrightarrow> i < length (replicas s) \<and> online (replicas s ! i) \<and> i \<noteq> l"
  by (auto simp: followers_def)

lemma length_followers:
  assumes "l < length (replicas s)" and "online (replicas s ! l)"
  shows "Suc (length (followers l s)) = length (online_list s)"
proof -
  have "length (followers l s) = card (set (online_list s) - {l})"
    by (subst distinct_card [symmetric]) (auto simp: followers_def intro!: arg_cong [of _ _ card])
  moreover have "card (set (online_list s)) = length (online_list s)"
    by (simp add: distinct_card)
  moreover have "l \<in> set (online_list s)" using assms by simp
  ultimately show ?thesis
    using card_Suc_Diff1 [of "set (online_list s)" l] by simp
qed

text \<open>A loop over the followers: the body sees the leader and its own follower.\<close>

lemma wp_for_followers:
  assumes body: "\<And>i st Q. i \<in> set (followers l s) \<Longrightarrow> replicas st ! l = fl (replicas s ! l) \<Longrightarrow>
      replicas st ! i = fo (replicas s ! i) \<Longrightarrow>
      wp (m i) Q E st = Q () (st\<lparr>replicas := (replicas st)[i := f (fo (replicas s ! i))]\<rparr>)"
    and "l < length (replicas s)"
  shows "wp (forE (followers l s) m) Q E (group_update l fl fo s) = Q () (group_update l fl (f \<circ> fo) s)"
proof -
  let ?s = "group_update l fl fo s"
  have "wp (forE (followers l s) m) Q E ?s =
      Q () (?s\<lparr>replicas := upd_all (followers l s) (\<lambda>_. f) (replicas ?s)\<rparr>)"
  proof (rule wp_forE_replicas)
    fix i ds Q
    assume i: "i \<in> set (followers l s)" "i \<notin> set ds" "set ds \<subseteq> set (followers l s)"
    then have "l \<notin> set ds" "i < length (replicas s)" "i \<noteq> l" "online (replicas s ! i)" by auto
    then show "wp (m i) Q E (?s\<lparr>replicas := upd_all ds (\<lambda>_. f) (replicas ?s)\<rparr>) =
        Q () (?s\<lparr>replicas := upd_all (i # ds) (\<lambda>_. f) (replicas ?s)\<rparr>)"
      using i assms(2) upd_all_step [where g = "\<lambda>_. f", of i "replicas ?s" ds] by (subst body) auto
  qed simp
  moreover have "upd_all (followers l s) (\<lambda>_. f) (replicas ?s) = replicas (group_update l fl (f \<circ> fo) s)"
    by (rule nth_equalityI) auto
  ultimately show ?thesis by (simp add: group_update_def)
qed

lemma fold_acks:
  "fold (\<lambda>i acc. if P i then acc else (fst acc + 1, snd acc @ [i])) ps (k, ds) =
    (k + length (filter (\<lambda>i. \<not> P i) ps), ds @ filter (\<lambda>i. \<not> P i) ps)"
  by (induction ps arbitrary: k ds) auto

lemma wp_replicate_to_skip:
  "i = l \<or> \<not> online (replicas s ! i) \<Longrightarrow> wp (replicate_to l e pi pt i acc) Q E s = Q acc s"
  by (auto simp: replicate_to_def)

lemma wp_replicate_all:
  assumes inv: "shard_inv s g" and l: "leader_ok s g l"
    and e: "entry_index e = int (length g) + 1" "valid_row (entry_row e)"
    and t: "t = current_term (replicas s ! l)" and row: "row = entry_row e"
    and n: "n = length (replicas s)"
  shows "wp (foldE (replicate_to l e (int (length g)) (last_term g)) [0..<n] (1, [])) Q E
      (s\<lparr>replicas := (replicas s)[l := set_log (g @ [row]) (replicas s ! l)]\<rparr>) =
    Q (length (online_list s), followers l s)
      (group_update l (set_log (g @ [row])) (replicated t (leader_id s) g row) s)"
proof -
  let ?rs = "replicas s" and ?lid = "leader_id s"
  let ?s1 = "s\<lparr>replicas := ?rs[l := set_log (g @ [row]) (?rs ! l)]\<rparr>"
  let ?G = "\<lambda>i r. if i = l \<or> \<not> online r then r else replicated t ?lid g row r"
  let ?h = "\<lambda>i acc. if i = l \<or> \<not> online (?rs ! i) then acc else (fst acc + 1, snd acc @ [i])"
  have L: "l < length ?rs" "replica_id (?rs ! l) = ?lid" "online (?rs ! l)" "rep_log (?rs ! l) = g"
    using l by (simp_all add: leader_ok_def)
  have set: "settled (?rs ! i) g" if "i < length ?rs" for i using inv that by (rule shard_invD)
  have rows: "list_all valid_row g" using settledD(6) [OF set [OF L(1)]] L(4) by simp
  have L': "state_ok (set_log (g @ [row]) (?rs ! l))" "commit_index (?rs ! l) = int (length g)"
    using settledD(2,4) [OF set [OF L(1)]] rows e row L(4) by (auto intro: state_ok_set_log)
  have body: "wp (replicate_to l e (int (length g)) (last_term g) i acc) Q E
      (?s1\<lparr>replicas := upd_all ds ?G (replicas ?s1)\<rparr>) =
      Q (?h i acc) (?s1\<lparr>replicas := upd_all (i # ds) ?G (replicas ?s1)\<rparr>)"
    if i: "i < length ?rs" "i \<notin> set ds" for i ds acc Q
  proof -
    let ?s = "?s1\<lparr>replicas := upd_all ds ?G (replicas ?s1)\<rparr>"
    have "same_group s ?s"
      using L(1) by (simp add: same_group_def nth_list_update)
    then have ids: "ids_ok ?s"
      using inv same_groupD(3) by (simp add: shard_inv_def)
    have nth: "replicas ?s1 ! i = ?rs ! i" if "i \<noteq> l" using that by simp
    show ?thesis
    proof (cases "i = l \<or> \<not> online (?rs ! i)")
      case True
      have "upd_all (i # ds) ?G (replicas ?s1) = upd_all ds ?G (replicas ?s1)"
        using True by (intro nth_equalityI) (auto simp: nth_list_update)
      then show ?thesis using True i nth by (subst wp_replicate_to_skip) auto
    next
      case False
      then have step: "upd_all (i # ds) ?G (replicas ?s1) =
          (upd_all ds ?G (replicas ?s1))[i := replicated t ?lid g row (?rs ! i)]"
        using upd_all_step [of i "replicas ?s1" ds ?G] i nth by simp
      show ?thesis
        unfolding step using False i L L' l set [OF i(1)] rows e t row
        by (subst wp_replicate_to [OF ids, where t = t and lid = ?lid]) (auto simp: leader_ok_def)
    qed
  qed
  have "wp (foldE (replicate_to l e (int (length g)) (last_term g)) [0..<n] (1, [])) Q E ?s1 =
      Q (fold ?h [0..<n] (1, [])) (?s1\<lparr>replicas := upd_all [0..<n] ?G (replicas ?s1)\<rparr>)"
    using n by (intro wp_foldE_replicas body) auto
  moreover have "fold ?h [0..<n] (1, []) = (length (online_list s), followers l s)"
    using length_followers [OF L(1,3)] by (simp add: fold_acks followers_def online_list_def n conj_commute)
  moreover have "upd_all [0..<n] ?G (replicas ?s1) =
      replicas (group_update l (set_log (g @ [row])) (replicated t ?lid g row) s)"
    using n by (intro nth_equalityI) (auto simp: nth_list_update)
  ultimately show ?thesis by (simp add: group_update_def)
qed

subsection \<open>Commit and withdrawal\<close>

text \<open>A follower after the second round of \<open>append_entries\<close>, which carries the new commit index.\<close>

definition confirmed :: "int \<Rightarrow> string \<Rightarrow> int \<Rightarrow> raft_replica \<Rightarrow> raft_replica" where
  "confirmed t lid n r = persisted (follow_commit n (set_log (rep_log r)
     (r\<lparr>current_term := t, replica_role := Follower, voted_for := lid\<rparr>)))"

lemma confirmed_views [simp]:
  "replica_id (confirmed t lid n r) = replica_id r" "online (confirmed t lid n r) = online r"
  "current_term (confirmed t lid n r) = t" "rep_log (confirmed t lid n r) = rep_log r"
  "replica_role (confirmed t lid n r) = Follower"
  by (simp_all add: confirmed_def)

lemma state_ok_replicated:
  assumes "settled r g" and "list_all valid_row (g @ [row])"
  shows "state_ok (replicated t lid g row r)"
  unfolding replicated_def using assms
  by (intro state_ok_persisted state_ok_set_log state_ok_followed) (simp_all add: commit_index_followed)

lemma commit_index_replicated: "settled r g \<Longrightarrow> commit_index (replicated t lid g row r) = int (length g)"
  by (simp add: replicated_def commit_index_followed)

lemma settled_committed:
  assumes "state_ok r" and "rep_log r = rows" and "i = int (length rows)"
    and "\<forall>row \<in> set rows. row_term row \<le> current_term r"
  shows "settled (persisted (follow_commit i r)) rows"
  using assms state_ok_follow_commit [OF assms(1), of i]
  by (auto simp: settled_def state_ok_def)

lemma settled_confirmed:
  assumes "settled r g" and "list_all valid_row (g @ [row])"
    and "\<forall>x \<in> set (g @ [row]). row_term x \<le> t"
  shows "settled (confirmed t lid (int (length g) + 1) (replicated t lid g row r)) (g @ [row])"
  unfolding confirmed_def using assms state_ok_replicated [OF assms(1,2), of t lid]
  by (intro settled_committed state_ok_set_log) (auto simp: commit_index_replicated)

lemma meta_ok_set_log [simp]: "meta_ok (set_log rows r) = meta_ok r"
  by (simp add: meta_ok_def meta_is_def)

lemma settled_withdrawn:
  assumes "settled r g" and "list_all valid_row (g @ [row])" and "\<forall>x \<in> set g. row_term x \<le> t"
  shows "settled (set_log g (replicated t lid g row r)) g"
  using assms state_ok_set_log [OF state_ok_replicated [OF assms(1,2), of t lid], of g]
  by (auto simp: settled_def replica_inv_def commit_index_replicated [OF assms(1)])
    (simp_all add: replicated_def)

lemma settled_mono: "settled r g \<Longrightarrow> prefix g g' \<Longrightarrow> settled r g'"
  by (auto simp: settled_def intro: prefix_order.trans)

lemma wp_confirm:
  assumes "settled r g" and "online r" and "list_all valid_row (g @ [row])" and "row_term row = t"
  shows "wp (append_entries t lid (int (length g) + 1) t [] (int (length g) + 1)) Q E (replicated t lid g row r) =
    Q True (confirmed t lid (int (length g) + 1) (replicated t lid g row r))"
  using wp_append_entries [of "replicated t lid g row r" t "length g + 1" t "[]" lid "int (length g) + 1" Q E]
    state_ok_replicated [OF assms(1,3), of t lid] assms
  by (simp add: commit_index_replicated confirmed_def add.commute)

text \<open>The invariant after a change of the leader and the followers.\<close>

lemma group_update_inv:
  assumes inv: "shard_inv s g" and l: "leader_ok s g l"
    and fl: "\<And>r. r = replicas s ! l \<Longrightarrow> settled (fl r) g' \<and> rep_log (fl r) = g' \<and> replica_id (fl r) = replica_id r \<and>
      online (fl r) \<and> replica_role (fl r) = Leader \<and> current_term (fl r) = current_term r"
    and fo: "\<And>r. settled r g \<Longrightarrow> settled (fo r) g' \<and> rep_log (fo r) = g' \<and> replica_id (fo r) = replica_id r \<and>
      online (fo r) = online r \<and> current_term (fo r) = current_term (replicas s ! l) \<and> replica_role (fo r) = Follower"
    and g': "log_wf g'" "prefix g g'" "g' = g \<or> has_quorum s"
  shows "shard_inv (group_update l fl fo s) g'" and "leader_ok (group_update l fl fo s) g' l"
    and "same_group s (group_update l fl fo s)"
proof -
  let ?s = "group_update l fl fo s" and ?rs = "replicas s"
  have L: "l < length ?rs" "online (?rs ! l)" using l by (simp_all add: leader_ok_def)
  have set: "settled (?rs ! i) g" if "i < length ?rs" for i using inv that by (rule shard_invD)
  show leader: "leader_ok ?s g' l"
    using l fl fo set by (auto simp: leader_ok_def)
  show group: "same_group s ?s"
    using L fl fo set by (auto simp: same_group_def)
  have "settled (replicas ?s ! i) g'" if "i < length ?rs" for i
    using that fl fo set [OF that] g'(2) by (auto intro: settled_mono)
  moreover have "roles_ok ?s"
    using inv l fl fo set by (auto simp: roles_ok_def shard_inv_def leader_ok_def)
  moreover have "quorum_size (length ?rs) \<le> card (holders ?s g')"
  proof (cases "g' = g")
    case True
    have "holders s g \<subseteq> holders ?s g'"
      using fl fo set by (auto simp: holders_def True)
    then have "card (holders s g) \<le> card (holders ?s g')"
      by (intro card_mono) (auto simp: holders_def)
    then show ?thesis using inv by (simp add: shard_inv_def)
  next
    case False
    have "set (online_list s) \<subseteq> holders ?s g'"
      using fl fo set by (auto simp: holders_def)
    then have "card (set (online_list s)) \<le> card (holders ?s g')"
      by (intro card_mono) (auto simp: holders_def)
    then show ?thesis using False g'(3) by (simp add: has_quorum_def distinct_card)
  qed
  ultimately show "shard_inv ?s g'"
    using inv leader same_groupD(3) [OF group] g'(1) by (auto simp: shard_inv_def)
qed

end
