(* ===== verification/Shard_Operations.thy ===== *)
theory Shard_Operations
  imports Shard_Replication
begin

text \<open>
  The public operations of a shard: what they return and that they keep the invariant, on every
  branch, with and without a majority online.
\<close>

subsection \<open>The public operations\<close>

definition write_row :: "int \<Rightarrow> string \<Rightarrow> string \<Rightarrow> string \<Rightarrow> log_columns" where
  "write_row t c k v = (t, c, c_str k, v)"

lemma write_row_simps [simp]:
  "row_term (write_row t c k v) = t"
  "c = ''PUT'' \<or> c = ''DELETE'' \<Longrightarrow> valid_row (write_row t c k v)"
  by (auto simp: write_row_def row_term_def valid_row_def)

lemma leader_rows:
  assumes "shard_inv s g" and "leader_ok s g l" and "row_term row = current_term (replicas s ! l)"
  shows "list_all valid_row g" "\<forall>x \<in> set (g @ [row]). row_term x \<le> current_term (replicas s ! l)"
    "log_wf (g @ [row])"
proof -
  have set: "settled (replicas s ! l) g" "rep_log (replicas s ! l) = g" and t: "0 < current_term (replicas s ! l)"
    using assms by (auto simp: leader_ok_def intro: shard_invD)
  show "list_all valid_row g" using settledD(6) [OF set(1)] set(2) by simp
  show le: "\<forall>x \<in> set (g @ [row]). row_term x \<le> current_term (replicas s ! l)"
    using set assms(3) by (auto simp: settled_def)
  show "log_wf (g @ [row])"
    using assms(1,3) le t by (auto simp: log_wf_def sorted_append shard_inv_def)
qed

text \<open>What \<open>replicate_command_locked\<close> does once there is a leader.\<close>

definition command_result :: "shard \<Rightarrow> string \<Rightarrow> operation_result" where
  "command_result s c = (let r = OperationResult\<lparr>res_shard := shard_id s, res_leader := leader_id s\<rparr>
    in if has_quorum s
       then r\<lparr>res_ok := True, res_status := (if c = ''DELETE'' then 200 else 201),
              res_message := (if c = ''DELETE'' then ''deleted'' else ''stored'')\<rparr>
       else r\<lparr>res_status := 503, res_message :=
              ''write rejected because a majority could not acknowledge the log entry''\<rparr>)"

definition command_state :: "shard \<Rightarrow> log_columns list \<Rightarrow> nat \<Rightarrow> log_columns \<Rightarrow> shard" where
  "command_state s g l row =
    (let t = row_term row; lid = leader_id s; n = int (length g) + 1
     in if has_quorum s
        then group_update l (\<lambda>r. persisted (follow_commit n (set_log (g @ [row]) r)))
               (confirmed t lid n \<circ> replicated t lid g row) s
        else group_update l id (set_log g \<circ> replicated t lid g row) s)"

lemma command_state_inv:
  assumes "shard_inv s g" and l: "leader_ok s g l" and "valid_row row"
    and t: "row_term row = current_term (replicas s ! l)"
  shows "shard_inv (command_state s g l row) (if has_quorum s then g @ [row] else g)"
    and "leader_ok (command_state s g l row) (if has_quorum s then g @ [row] else g) l"
    and "same_group s (command_state s g l row)"
proof -
  note rows = leader_rows [OF assms(1) l t]
  have set: "settled (replicas s ! l) g" using assms by (auto simp: leader_ok_def intro: shard_invD)
  have valid: "list_all valid_row (g @ [row])" using rows(1) assms(3) by simp
  have wf: "log_wf g" using assms(1) by (simp add: shard_inv_def)
  let ?g = "if has_quorum s then g @ [row] else g"
  let ?n = "int (length g) + 1" and ?t = "row_term row" and ?lid = "leader_id s"
  let ?fl = "if has_quorum s then (\<lambda>r. persisted (follow_commit ?n (set_log (g @ [row]) r))) else id"
  let ?fo = "if has_quorum s then confirmed ?t ?lid ?n \<circ> replicated ?t ?lid g row
    else set_log g \<circ> replicated ?t ?lid g row"
  have "settled (persisted (follow_commit ?n (set_log (g @ [row]) (replicas s ! l)))) (g @ [row])"
    using settledD(2,4) [OF set] valid rows l
    by (intro settled_committed state_ok_set_log) (auto simp: leader_ok_def)
  then have fl: "settled (?fl r) ?g \<and> rep_log (?fl r) = ?g \<and> replica_id (?fl r) = replica_id r \<and>
      online (?fl r) \<and> replica_role (?fl r) = Leader \<and> current_term (?fl r) = current_term r"
    if "r = replicas s ! l" for r using that set l by (auto simp: leader_ok_def)
  have fo: "settled (?fo r) ?g \<and> rep_log (?fo r) = ?g \<and> replica_id (?fo r) = replica_id r \<and>
      online (?fo r) = online r \<and> current_term (?fo r) = current_term (replicas s ! l) \<and> replica_role (?fo r) = Follower"
    if "settled r g" for r
    using that valid rows t by (simp add: settled_confirmed settled_withdrawn)
  have eq: "command_state s g l row = group_update l ?fl ?fo s"
    by (simp add: command_state_def Let_def)
  show "shard_inv (command_state s g l row) ?g" "leader_ok (command_state s g l row) ?g l"
    "same_group s (command_state s g l row)"
    unfolding eq using group_update_inv [OF assms(1) l fl fo] wf rows(3) by simp_all
qed

lemma wp_discard_followers:
  assumes inv: "shard_inv s g" and "l < length (replicas s)" and valid: "list_all valid_row (g @ [row])"
  shows "wp (forE (followers l s) (\<lambda>i. on_replica i discard_uncommitted)) Q E
      (group_update l fl (replicated t lid g row) s) =
    Q () (group_update l fl (set_log g \<circ> replicated t lid g row) s)"
proof (rule wp_for_followers [OF _ assms(2)])
  fix i Q and st :: shard
  assume "i \<in> set (followers l s)" and st: "replicas st ! i = replicated t lid g row (replicas s ! i)"
  then have set: "settled (replicas s ! i) g" using inv by (auto intro: shard_invD)
  show "wp (on_replica i discard_uncommitted) Q E st =
      Q () (st\<lparr>replicas := (replicas st)[i := set_log g (replicated t lid g row (replicas s ! i))]\<rparr>)"
    using state_ok_replicated [OF set valid, of t lid] st
    by (simp add: wp_discard_uncommitted commit_index_replicated [OF set] state_ok_def)
qed

lemma wp_confirm_followers:
  assumes inv: "shard_inv s g" and "l < length (replicas s)" and valid: "list_all valid_row (g @ [row])"
    and t: "row_term row = t" and L: "current_term (fl (replicas s ! l)) = t" "replica_id (fl (replicas s ! l)) = lid"
    and n: "n = int (length g) + 1"
  shows "wp (forE (followers l s) (\<lambda>i.
      bindE (on_replica l (getE id)) (\<lambda>lead.
      bindE (on_replica i (append_entries (current_term lead) (replica_id lead) n t [] n)) (\<lambda>_. ret ())))) Q E
      (group_update l fl (replicated t lid g row) s) =
    Q () (group_update l fl (confirmed t lid n \<circ> replicated t lid g row) s)"
proof (rule wp_for_followers [OF _ assms(2)])
  fix i Q and st :: shard
  assume "i \<in> set (followers l s)" and st: "replicas st ! i = replicated t lid g row (replicas s ! i)"
    "replicas st ! l = fl (replicas s ! l)"
  then have "settled (replicas s ! i) g" "online (replicas s ! i)" using inv by (auto intro: shard_invD)
  then show "wp (bindE (on_replica l (getE id)) (\<lambda>lead.
      bindE (on_replica i (append_entries (current_term lead) (replica_id lead) n t [] n)) (\<lambda>_. ret ()))) Q E st =
      Q () (st\<lparr>replicas := (replicas st)[i := confirmed t lid n (replicated t lid g row (replicas s ! i))]\<rparr>)"
    using st t L n valid list_update_id [of "replicas st" l] by (simp add: wp_confirm)
qed

lemma group_update_leader:
  assumes "l < length (replicas s)"
  shows "(group_update l fl fo s)\<lparr>replicas := (replicas (group_update l fl fo s))[l := f (fl (replicas s ! l))]\<rparr> =
    group_update l (f \<circ> fl) fo s"
proof -
  have "(replicas (group_update l fl fo s))[l := f (fl (replicas s ! l))] =
      replicas (group_update l (f \<circ> fl) fo s)"
    using assms by (intro nth_equalityI) (auto simp: nth_list_update)
  then show ?thesis by (simp add: group_update_def)
qed

lemma group_update_cong:
  assumes "fl (replicas s ! l) = fl' (replicas s ! l)"
  shows "group_update l fl fo s = group_update l fl' fo s"
proof -
  have "replicas (group_update l fl fo s) = replicas (group_update l fl' fo s)"
    using assms by (intro nth_equalityI) auto
  then show ?thesis by (simp add: group_update_def)
qed

lemma wp_replicate_with_leader:
  assumes inv: "shard_inv s g" and l: "leader_ok s g l" and c: "c = ''PUT'' \<or> c = ''DELETE''"
  shows "wp (replicate_command_locked c k v) Q E s =
    Q (command_result s c) (command_state s g l (write_row (current_term (replicas s ! l)) c k v))"
proof -
  let ?L = "replicas s ! l" and ?rs = "replicas s" and ?lid = "leader_id s"
  define t where "t = current_term ?L"
  define row where "row = write_row t c k v"
  define e where "e = \<lparr>entry_index = int (length g) + 1, entry_term = t, entry_command = c,
    entry_key = k, entry_value = v\<rparr>"
  have row: "entry_row e = row" "row_term row = t" "valid_row row"
    using c by (auto simp: e_def row_def) (auto simp: write_row_def entry_row_def)
  have ids: "ids_ok s" using inv by (simp add: shard_inv_def)
  have L: "l < length ?rs" "replica_id ?L = ?lid" "online ?L" "replica_role ?L = Leader" "rep_log ?L = g"
    using l by (simp_all add: leader_ok_def)
  note L' = settledD [OF shard_invD [OF inv L(1)]]
  have valid: "list_all valid_row (g @ [row])" using L'(6) L(5) row(3) by simp
  have ok: "state_ok (set_log (g @ [row]) ?L)" "commit_index ?L = int (length g)"
    using L'(2,4) L(5) valid by (auto intro: state_ok_set_log)
  have ensure: "wp ensure_leader_locked Q E s = Q True s" for Q E
    by (simp add: ensure_leader_locked_def wp_current_leader [OF ids l])
  have append: "wp (append_local c k v) Q E ?L = Q e (set_log (g @ [row]) ?L)" for Q E
    using L L'(1) row(1) by (simp add: wp_append_local e_def t_def Let_def)
  have prev: "wp (term_at (int (length g))) Q E (set_log (g @ [row]) ?L) =
      Q (last_term g) (set_log (g @ [row]) ?L)" for Q E
    using L'(1) valid by (auto simp: nat_minus_as_int wp_term_at row_at_def last_term_def last_conv_nth nth_append)
  have discard: "wp discard_uncommitted Q E (set_log (g @ [row]) ?L) = Q () (set_log g (set_log (g @ [row]) ?L))" for Q E
    using L'(1) valid ok(2) by (simp add: wp_discard_uncommitted)
  have commit: "wp (commit_to n) Q E (set_log (g @ [row]) ?L) =
      Q () (persisted (follow_commit n (set_log (g @ [row]) ?L)))" for n Q E
    using ok(1) L(3) by (simp add: wp_commit_to)
  have same: "set_log g ?L = ?L" using set_log_same [OF L'(1)] L(5) by simp
  have e: "entry_index e = int (length g) + 1" "entry_term e = t" by (simp_all add: e_def)
  have all: "wp (foldE (replicate_to l e (int (length g)) (last_term g)) [0..<length ?rs] (Suc 0, [])) Q E
      (s\<lparr>replicas := ?rs[l := set_log (g @ [row]) ?L]\<rparr>) =
    Q (length (online_list s), followers l s) (group_update l (set_log (g @ [row])) (replicated t ?lid g row) s)" for Q E
    unfolding One_nat_def [symmetric] using row e by (intro wp_replicate_all [OF inv l]) (simp_all add: t_def)
  let ?fl = "\<lambda>r. persisted (follow_commit (int (length g) + 1) (set_log (g @ [row]) r))"
  have commit_leader: "(group_update l (set_log (g @ [row])) fo s)\<lparr>replicas :=
      (replicas (group_update l (set_log (g @ [row])) fo s))[l := ?fl ?L]\<rparr> = group_update l ?fl fo s" for fo
    using group_update_leader [OF L(1), where f = "\<lambda>r. persisted (follow_commit (int (length g) + 1) r)"]
    by (simp add: comp_def)
  have discard_leader: "(group_update l (set_log (g @ [row])) fo s)\<lparr>replicas :=
      (replicas (group_update l (set_log (g @ [row])) fo s))[l := ?L]\<rparr> = group_update l id fo s" for fo
    using group_update_leader [OF L(1), of "set_log (g @ [row])" fo "set_log g"] same
      group_update_cong [of "set_log g \<circ> set_log (g @ [row])" s l id fo] by simp
  have confirm: "wp (forE (followers l s) (\<lambda>i. bindE (on_replica l (getE id)) (\<lambda>lead.
      bindE (on_replica i (append_entries (current_term lead) (replica_id lead) (int (length g) + 1) t []
        (int (length g) + 1))) (\<lambda>_. ret ())))) Q E (group_update l ?fl (replicated t ?lid g row) s) =
    Q () (group_update l ?fl (confirmed t ?lid (int (length g) + 1) \<circ> replicated t ?lid g row) s)" for Q E
    using L(2) by (intro wp_confirm_followers [OF inv L(1) valid row(2)]) (simp_all add: t_def)
  show ?thesis
    unfolding replicate_command_locked_def t_def [symmetric] row_def [symmetric]
    using L(1) by (simp add: Let_def ensure wp_current_leader [OF ids l] append e prev all discard commit same
        commit_leader discard_leader wp_discard_followers [OF inv L(1) valid] confirm
        has_quorum_def command_result_def command_state_def L(2) row(2) not_le)
qed

text \<open>Once \<open>ensure_leader_locked\<close> has succeeded, it changes nothing.\<close>

lemma ensure_leader_obtain:
  assumes "shard_inv s g" and "leader_id s \<noteq> [] \<or> has_quorum s"
  obtains s' l where "\<And>Q E. wp ensure_leader_locked Q E s = Q True s'"
    and "shard_inv s' g" and "leader_ok s' g l" and "same_group s s'" and "leader_id s \<noteq> [] \<Longrightarrow> s' = s"
  using ensure_leader_ok [OF assms] by blast

lemma ensure_leader_idle:
  "ids_ok s \<Longrightarrow> leader_ok s g l \<Longrightarrow> wp ensure_leader_locked Q E s = Q True s"
  by (simp add: ensure_leader_locked_def wp_current_leader)

lemma wp_after_ensure:
  assumes "\<And>Q E. wp ensure_leader_locked Q E s = Q True s'" and "same_group s s'"
    and "ids_ok s'" and "leader_ok s' g l"
  shows "wp (replicate_command_locked c k v) Q E s = wp (replicate_command_locked c k v) Q E s'"
    and "wp (shard_get k) Q E s = wp (shard_get k) Q E s'"
  using assms(2) by (simp_all add: replicate_command_locked_def shard_get_def Let_def assms(1)
      ensure_leader_idle [OF assms(3,4)] same_group_def)

text \<open>Writes: with a majority online they are committed, otherwise nothing is.\<close>

lemma replicate_command_ok:
  assumes inv: "shard_inv s g" and q: "has_quorum s" and c: "c = ''PUT'' \<or> c = ''DELETE''"
  obtains s' t r where "replicate_command_locked c k v s = (Inr r, s')"
    and "shard_inv s' (g @ [write_row t c k v])" and "same_group s s'"
    and "leader_id s' \<in> replica_id ` {r \<in> set (replicas s). online r}" "leader_id s \<noteq> [] \<Longrightarrow> leader_id s' = leader_id s"
    and "r = \<lparr>res_ok = True, res_status = (if c = ''DELETE'' then 200 else 201),
       res_message = (if c = ''DELETE'' then ''deleted'' else ''stored''), res_value = [],
       res_shard = shard_id s, res_leader = leader_id s'\<rparr>"
proof -
  obtain s1 l where s1: "\<And>Q E. wp ensure_leader_locked Q E s = Q True s1" "shard_inv s1 g" "leader_ok s1 g l"
    "same_group s s1" "leader_id s \<noteq> [] \<Longrightarrow> s1 = s"
    using ensure_leader_obtain [OF inv] q by blast
  have ids: "ids_ok s1" using s1(2) by (simp add: shard_inv_def)
  let ?row = "write_row (current_term (replicas s1 ! l)) c k v"
  let ?s = "command_state s1 g l ?row"
  have q1: "has_quorum s1" using same_groupD(2) [OF s1(4)] q by simp
  note props = command_state_inv [OF s1(2,3), of ?row] 
  have "runs (replicate_command_locked c k v) (\<lambda>r s'. r = command_result s1 c \<and> s' = ?s) s"
    by (simp add: wp_after_ensure(1) [OF s1(1,4) ids s1(3)] wp_replicate_with_leader [OF s1(2,3) c])
  then have run: "replicate_command_locked c k v s = (Inr (command_result s1 c), ?s)"
    by (auto simp: runs_iff)
  have lid: "leader_id ?s = leader_id s1" by (simp add: command_state_def Let_def)
  have "l < length (replicas s)" "replica_id (replicas s ! l) = leader_id s1" "online (replicas s ! l)"
    using s1(3,4) by (auto simp: leader_ok_def same_group_def)
  then have up: "leader_id ?s \<in> replica_id ` {r \<in> set (replicas s). online r}"
    unfolding lid by (auto intro!: image_eqI [of _ _ "replicas s ! l"])
  show ?thesis
  proof (rule that [OF run _ _ up])
    show "shard_inv ?s (g @ [?row])" "same_group s ?s"
      using props c q1 same_group_trans [OF s1(4)] by simp_all
    show "leader_id ?s = leader_id s" if "leader_id s \<noteq> []" using lid s1(5) [OF that] by simp
    show "command_result s1 c = \<lparr>res_ok = True, res_status = (if c = ''DELETE'' then 200 else 201),
       res_message = (if c = ''DELETE'' then ''deleted'' else ''stored''), res_value = [],
       res_shard = shard_id s, res_leader = leader_id ?s\<rparr>"
      using lid s1(4) q1 by (simp add: command_result_def OperationResult_def Let_def same_group_def)
  qed
qed

lemma replicate_command_rejected:
  assumes inv: "shard_inv s g" and q: "\<not> has_quorum s" and c: "c = ''PUT'' \<or> c = ''DELETE''"
  obtains s' r where "replicate_command_locked c k v s = (Inr r, s')"
    and "shard_inv s' g" and "same_group s s'" and "leader_id s' = leader_id s"
    and "\<not> res_ok r" "res_status r = 503" "res_value r = []" "res_shard r = shard_id s"
proof (cases "leader_id s = []")
  case True
  have "runs (replicate_command_locked c k v) (\<lambda>r s'. s' = s \<and>
      r = OperationResult\<lparr>res_shard := shard_id s, res_status := 503, res_message := ''no quorum available''\<rparr>) s"
    by (simp add: replicate_command_locked_def ensure_leader_fails [OF inv True q] Let_def)
  then show ?thesis using that [of _ s] inv by (auto simp: runs_iff OperationResult_def)
next
  case False
  then obtain l where l: "leader_ok s g l" using inv by (auto simp: shard_inv_def)
  let ?row = "write_row (current_term (replicas s ! l)) c k v"
  have "runs (replicate_command_locked c k v) (\<lambda>r s'. r = command_result s c \<and> s' = command_state s g l ?row) s"
    by (simp add: wp_replicate_with_leader [OF inv l c])
  then have "replicate_command_locked c k v s = (Inr (command_result s c), command_state s g l ?row)"
    by (auto simp: runs_iff)
  then show ?thesis
    using that command_state_inv [OF inv l, of ?row] c q
    by (simp add: command_state_def command_result_def OperationResult_def Let_def)
qed

definition online_ids :: "shard \<Rightarrow> string set" where
  "online_ids s = replica_id ` {r \<in> set (replicas s). online r}"

lemma online_ids_iff:
  "x \<in> online_ids s \<longleftrightarrow> (\<exists>j < length (replicas s). online (replicas s ! j) \<and> replica_id (replicas s ! j) = x)"
  by (auto simp: online_ids_def set_conv_nth)

lemma same_group_ids:
  assumes "same_group s s'"
  shows "map replica_id (replicas s') = map replica_id (replicas s)" "online_ids s' = online_ids s"
proof -
  show "map replica_id (replicas s') = map replica_id (replicas s)"
    using assms by (intro nth_equalityI) (auto simp: same_group_def)
  show "online_ids s' = online_ids s"
    using assms by (intro set_eqI) (auto simp: online_ids_iff same_group_def)
qed

lemma leader_online: "leader_ok s g l \<Longrightarrow> leader_id s \<in> online_ids s"
  by (auto simp: leader_ok_def online_ids_iff)

text \<open>Reads: the value the committed log gives the key.\<close>

definition read_result :: "shard \<Rightarrow> string option \<Rightarrow> operation_result" where
  "read_result s v =
    (case v of
       None \<Rightarrow> \<lparr>res_ok = False, res_status = 404, res_message = ''key not found'', res_value = [],
         res_shard = shard_id s, res_leader = leader_id s\<rparr>
     | Some x \<Rightarrow> \<lparr>res_ok = True, res_status = 200, res_message = ''ok'', res_value = x,
         res_shard = shard_id s, res_leader = leader_id s\<rparr>)"

lemma shard_get_ok:
  assumes inv: "shard_inv s g" and "leader_id s \<noteq> [] \<or> has_quorum s"
  obtains s' where "shard_get k s = (Inr (read_result s' (replay g (c_str k))), s')"
    and "shard_inv s' g" and "same_group s s'" and "leader_id s' \<in> online_ids s"
    and "leader_id s \<noteq> [] \<Longrightarrow> s' = s"
proof -
  obtain s1 l where s1: "\<And>Q E. wp ensure_leader_locked Q E s = Q True s1" "shard_inv s1 g" "leader_ok s1 g l"
    "same_group s s1" "leader_id s \<noteq> [] \<Longrightarrow> s1 = s"
    using ensure_leader_obtain [OF assms] by blast
  have ids: "ids_ok s1" using s1(2) by (simp add: shard_inv_def)
  have L: "settled (replicas s1 ! l) g" "rep_log (replicas s1 ! l) = g" "online (replicas s1 ! l)"
    "replica_id (replicas s1 ! l) = leader_id s1"
    using s1(2,3) by (auto simp: leader_ok_def intro: shard_invD)
  then have "rep_kv (replicas s1 ! l) = replay g" using settledD(7) by simp
  then have "runs (shard_get k) (\<lambda>r s'. r = read_result s1 (replay g (c_str k)) \<and> s' = s1) s"
    unfolding wp_after_ensure(2) [OF s1(1,4) ids s1(3)] using L settledD(1) [OF L(1)]
    by (simp add: shard_get_def
        ensure_leader_idle [OF ids s1(3)] wp_current_leader [OF ids s1(3)] Let_def wp_replica_get
        read_result_def OperationResult_def split: option.splits)
  then have "shard_get k s = (Inr (read_result s1 (replay g (c_str k))), s1)"
    by (auto simp: runs_iff)
  then show ?thesis
    using that s1 leader_online [OF s1(3)] same_group_ids(2) [OF s1(4)] by simp
qed

lemma shard_get_rejected:
  assumes inv: "shard_inv s g" and "leader_id s = []" and "\<not> has_quorum s"
  shows "shard_get k s = (Inr \<lparr>res_ok = False, res_status = 503,
    res_message = ''no quorum available for leader election'', res_value = [],
    res_shard = shard_id s, res_leader = []\<rparr>, s)"
proof -
  have "runs (shard_get k) (\<lambda>r s'. s' = s \<and> r = \<lparr>res_ok = False, res_status = 503,
    res_message = ''no quorum available for leader election'', res_value = [],
    res_shard = shard_id s, res_leader = []\<rparr>) s"
    by (simp add: shard_get_def ensure_leader_fails [OF assms] Let_def OperationResult_def)
  then show ?thesis by (auto simp: runs_iff)
qed

lemma shard_elect_ok:
  assumes inv: "shard_inv s g"
  obtains s' where "shard_elect_leader s = (Inr (leader_id s \<noteq> [] \<or> has_quorum s), s')"
    and "shard_inv s' g" and "same_group s s'"
    and "leader_id s \<noteq> [] \<or> has_quorum s \<Longrightarrow> leader_id s' \<in> online_ids s"
    and "leader_id s \<noteq> [] \<or> \<not> has_quorum s \<Longrightarrow> s' = s"
proof (cases "leader_id s \<noteq> [] \<or> has_quorum s")
  case True
  obtain s1 l where s1: "\<And>Q E. wp ensure_leader_locked Q E s = Q True s1" "shard_inv s1 g" "leader_ok s1 g l"
    "same_group s s1" "leader_id s \<noteq> [] \<Longrightarrow> s1 = s"
    using ensure_leader_obtain [OF inv True] by blast
  have "runs shard_elect_leader (\<lambda>b s'. b \<and> s' = s1) s"
    by (simp add: shard_elect_leader_def s1(1))
  then have "shard_elect_leader s = (Inr True, s1)" by (auto simp: runs_iff)
  then show ?thesis
    using that [of s1] True s1 leader_online [OF s1(3)] same_group_ids(2) [OF s1(4)] by auto
next
  case False
  then have "runs shard_elect_leader (\<lambda>b s'. \<not> b \<and> s' = s) s"
    by (simp add: shard_elect_leader_def ensure_leader_fails [OF inv])
  then have "shard_elect_leader s = (Inr False, s)" by (auto simp: runs_iff)
  then show ?thesis using that [of s] False inv by auto
qed

text \<open>Failing and recovering a replica.\<close>

lemma wp_find_replica:
  assumes "ids_ok s" and "i < length (replicas s)"
  shows "wp (find_replica (replica_id (replicas s ! i))) Q E s = Q (Some i) s"
proof -
  have "find (\<lambda>j. replica_id (replicas s ! j) = replica_id (replicas s ! i)) [0..<length (replicas s)] = Some i"
    using assms replica_id_eq [OF assms(1)] by (intro find_unique) auto
  then show ?thesis by (simp add: find_replica_def)
qed

lemma wp_find_replica_none:
  assumes "rid \<notin> replica_id ` set (replicas s)"
  shows "wp (find_replica rid) Q E s = Q None s"
proof -
  have "find (\<lambda>j. replica_id (replicas s ! j) = rid) [0..<length (replicas s)] = None"
    using assms by (auto simp: find_None_iff)
  then show ?thesis by (simp add: find_replica_def)
qed

lemma settled_online [simp]: "settled (r\<lparr>online := b\<rparr>) g = settled r g"
  by (simp add: settled_def replica_inv_def meta_ok_def meta_is_def)

definition failed :: "nat \<Rightarrow> shard \<Rightarrow> shard" where
  "failed i s = s\<lparr>replicas := (replicas s)[i := (replicas s ! i)\<lparr>online := False, replica_role := Follower\<rparr>],
     leader_id := (if leader_id s = replica_id (replicas s ! i) then [] else leader_id s)\<rparr>"

lemma shard_fail_ok:
  assumes inv: "shard_inv s g" and i: "i < length (replicas s)"
  shows "shard_fail_replica (replica_id (replicas s ! i)) s = (Inr True, failed i s)"
    and "shard_inv (failed i s) g"
    and "online_ids (failed i s) = online_ids s - {replica_id (replicas s ! i)}"
    and "map replica_id (replicas (failed i s)) = map replica_id (replicas s)"
proof -
  have ids: "ids_ok s" using inv by (simp add: shard_inv_def)
  have "runs (shard_fail_replica (replica_id (replicas s ! i))) (\<lambda>b s'. b \<and> s' = failed i s) s"
    by (auto simp: shard_fail_replica_def wp_find_replica [OF ids i] set_online_def failed_def)
  then show "shard_fail_replica (replica_id (replicas s ! i)) s = (Inr True, failed i s)"
    by (auto simp: runs_iff)
  have nth: "replicas (failed i s) ! j = (if j = i then (replicas s ! i)\<lparr>online := False, replica_role := Follower\<rparr>
      else replicas s ! j)" if "j < length (replicas s)" for j
    using that i by (simp add: failed_def nth_list_update)
  have len: "length (replicas (failed i s)) = length (replicas s)"
    and lid: "leader_id (failed i s) = (if leader_id s = replica_id (replicas s ! i) then [] else leader_id s)"
    by (simp_all add: failed_def)
  show idm: "map replica_id (replicas (failed i s)) = map replica_id (replicas s)"
    by (intro nth_equalityI) (auto simp: nth len)
  then have "ids_ok (failed i s)"
    using ids len by (auto simp: ids_ok_def nth)
  moreover have "roles_ok (failed i s)"
    unfolding roles_ok_def len
  proof (intro allI impI)
    fix j
    assume j: "j < length (replicas s)" "replica_role (replicas (failed i s) ! j) = Leader"
    then have "j \<noteq> i" "replica_id (replicas s ! j) = leader_id s"
      using inv by (auto simp: nth shard_inv_def roles_ok_def split: if_splits)
    then show "replica_id (replicas (failed i s) ! j) = leader_id (failed i s)"
      using j(1) replica_id_eq [OF ids j(1) i] by (simp add: nth lid)
  qed
  moreover have "holders (failed i s) g = holders s g"
    by (auto simp: holders_def nth len split: if_splits)
  moreover have "leader_ok (failed i s) g l" if "leader_ok s g l" "leader_id s \<noteq> replica_id (replicas s ! i)" for l
    using that by (auto simp: leader_ok_def nth len lid)
  ultimately show "shard_inv (failed i s) g"
    using inv by (auto simp: shard_inv_def nth len lid)
  show "online_ids (failed i s) = online_ids s - {replica_id (replicas s ! i)}"
    using replica_id_eq [OF ids _ i]
    by (intro set_eqI) (auto simp: online_ids_iff nth len split: if_splits)
qed

lemma shard_unknown_replica:
  assumes "rid \<notin> replica_id ` set (replicas s)"
  shows "shard_fail_replica rid s = (Inr False, s)" and "shard_recover_replica rid s = (Inr False, s)"
proof -
  have "runs (shard_fail_replica rid) (\<lambda>b s'. \<not> b \<and> s' = s) s"
    "runs (shard_recover_replica rid) (\<lambda>b s'. \<not> b \<and> s' = s) s"
    by (simp_all add: shard_fail_replica_def shard_recover_replica_def wp_find_replica_none [OF assms])
  then show "shard_fail_replica rid s = (Inr False, s)" "shard_recover_replica rid s = (Inr False, s)"
    by (auto simp: runs_iff)
qed

lemma replace_follower_inv:
  assumes inv: "shard_inv s g" and l: "leader_ok s g l" and i: "i < length (replicas s)" "i \<noteq> l"
    and r: "settled r g" "rep_log r = g" "replica_id r = replica_id (replicas s ! i)"
      "online r = online (replicas s ! i)" "current_term r \<le> current_term (replicas s ! l)"
      "replica_role r = Follower"
  shows "shard_inv (s\<lparr>replicas := (replicas s)[i := r]\<rparr>) g"
    and "same_group s (s\<lparr>replicas := (replicas s)[i := r]\<rparr>)"
proof -
  let ?s = "s\<lparr>replicas := (replicas s)[i := r]\<rparr>"
  show group: "same_group s ?s"
    using i r by (auto simp: same_group_def nth_list_update)
  have "leader_ok ?s g l"
    using l i r by (auto simp: leader_ok_def nth_list_update)
  moreover have "roles_ok ?s"
    using inv i r(6) by (auto simp: shard_inv_def roles_ok_def nth_list_update)
  moreover have "holders s g \<subseteq> holders ?s g"
    using i r(2) by (auto simp: holders_def nth_list_update)
  then have "card (holders s g) \<le> card (holders ?s g)"
    by (intro card_mono) (auto simp: holders_def)
  moreover have "settled (replicas ?s ! j) g" if "j < length (replicas s)" for j
    using that i r(1) shard_invD [OF inv that] by (simp add: nth_list_update)
  ultimately show "shard_inv ?s g"
    using inv same_groupD(3) [OF group] by (auto simp: shard_inv_def)
qed

definition rejoined :: "nat \<Rightarrow> shard \<Rightarrow> shard" where
  "rejoined i s = s\<lparr>replicas := (replicas s)[i := (replicas s ! i)\<lparr>online := True\<rparr>]\<rparr>"

lemma rejoined_props:
  assumes inv: "shard_inv s g" and i: "i < length (replicas s)"
  shows "shard_inv (rejoined i s) g" "leader_id (rejoined i s) = leader_id s"
    "shard_id (rejoined i s) = shard_id s"
    "online_ids (rejoined i s) = insert (replica_id (replicas s ! i)) (online_ids s)"
    "map replica_id (replicas (rejoined i s)) = map replica_id (replicas s)"
proof -
  have nth: "replicas (rejoined i s) ! j = (if j = i then (replicas s ! i)\<lparr>online := True\<rparr> else replicas s ! j)"
    if "j < length (replicas s)" for j
    using that i by (simp add: rejoined_def nth_list_update)
  show len: "leader_id (rejoined i s) = leader_id s" "shard_id (rejoined i s) = shard_id s"
    by (simp_all add: rejoined_def)
  have n: "length (replicas (rejoined i s)) = length (replicas s)" by (simp add: rejoined_def)
  show idm: "map replica_id (replicas (rejoined i s)) = map replica_id (replicas s)"
    by (intro nth_equalityI) (auto simp: nth n)
  then have "ids_ok (rejoined i s)"
    using inv n by (auto simp: ids_ok_def nth shard_inv_def)
  moreover have "roles_ok (rejoined i s)"
    using inv by (auto simp: shard_inv_def roles_ok_def nth n len)
  moreover have "holders (rejoined i s) g = holders s g"
    by (auto simp: holders_def nth n split: if_splits)
  moreover have "leader_ok (rejoined i s) g l" if "leader_ok s g l" for l
    using that by (auto simp: leader_ok_def nth n len)
  ultimately show "shard_inv (rejoined i s) g"
    using inv by (auto simp: shard_inv_def nth n len)
  show "online_ids (rejoined i s) = insert (replica_id (replicas s ! i)) (online_ids s)"
    using i by (intro set_eqI) (auto simp: online_ids_iff nth n split: if_splits)
qed

lemma shard_recover_ok:
  assumes inv: "shard_inv s g" and i: "i < length (replicas s)"
  obtains s' where "shard_recover_replica (replica_id (replicas s ! i)) s = (Inr True, s')"
    and "shard_inv s' g" and "same_group (rejoined i s) s'"
    and "leader_id s \<noteq> [] \<or> has_quorum (rejoined i s) \<Longrightarrow>
      leader_id s' \<in> online_ids s' \<and> rep_log (replicas s' ! i) = g"
    and "leader_id s \<noteq> [] \<or> \<not> has_quorum (rejoined i s) \<Longrightarrow> leader_id s' = leader_id s"
proof -
  let ?s = "rejoined i s" and ?rid = "replica_id (replicas s ! i)"
  have ids: "ids_ok s" using inv by (simp add: shard_inv_def)
  note s = rejoined_props [OF inv i]
  have start: "wp (shard_recover_replica ?rid) Q E s =
      wp ensure_leader_locked (\<lambda>elected. wp (bindE (if elected
                then bindE current_leader_locked (\<lambda>lo.
                  bindE (getE replicas) (\<lambda>rs.
                  case lo of
                    None \<Rightarrow> ret ()
                  | Some leader \<Rightarrow>
                      if replica_id (rs ! leader) \<noteq> replica_id (rs ! i)
                      then sync_follower_locked i leader else ret ()))
                else ret ()) (\<lambda>_. ret True)) Q E) E ?s" for Q E
    by (simp add: shard_recover_replica_def wp_find_replica [OF ids i] set_online_def rejoined_def)
  show ?thesis
  proof (cases "leader_id s \<noteq> [] \<or> has_quorum ?s")
    case False
    then have "runs (shard_recover_replica ?rid) (\<lambda>b s'. b \<and> s' = ?s) s"
      unfolding start using ensure_leader_fails [OF s(1)] s(2) by simp
    then have "shard_recover_replica ?rid s = (Inr True, ?s)" by (auto simp: runs_iff)
    then show ?thesis using that [of ?s] s(1,2) False by simp
  next
    case True
    obtain s1 l where s1: "\<And>Q E. wp ensure_leader_locked Q E ?s = Q True s1" "shard_inv s1 g"
      "leader_ok s1 g l" "same_group ?s s1" "leader_id ?s \<noteq> [] \<Longrightarrow> s1 = ?s"
      using ensure_leader_obtain [OF s(1)] True s(2) by metis
    have ids1: "ids_ok s1" using s1(2) by (simp add: shard_inv_def)
    have i1: "i < length (replicas s1)" "online (replicas s1 ! i)"
      using s1(4) i by (auto simp: same_group_def rejoined_def)
    have L: "l < length (replicas s1)" "rep_log (replicas s1 ! l) = g" using s1(3) by (auto simp: leader_ok_def)
    have set: "settled (replicas s1 ! j) g" if "j < length (replicas s1)" for j
      using s1(2) that by (rule shard_invD)
    define s2 where "s2 = (if i = l then s1 else s1\<lparr>replicas := (replicas s1)
      [i := installed (current_term (replicas s1 ! l)) g (replicas s1 ! i)]\<rparr>)"
    have sync: "wp (sync_follower_locked i l) Q E s1 = Q () (s1\<lparr>replicas := (replicas s1)
      [i := installed (current_term (replicas s1 ! l)) g (replicas s1 ! i)]\<rparr>)" for Q E
      using settledD(1) [OF set [OF i1(1)]] settledD(2,4) [OF set [OF L(1)]] L(2) i1(2)
      by (intro wp_sync_follower) auto
    have "runs (shard_recover_replica ?rid) (\<lambda>b s'. b \<and> s' = s2) s"
      unfolding start by (simp add: s1(1) wp_current_leader [OF ids1 s1(3)] replica_id_eq [OF ids1 L(1) i1(1)]
          s2_def sync)
    then have run: "shard_recover_replica ?rid s = (Inr True, s2)" by (auto simp: runs_iff)
    have "\<forall>row \<in> set g. row_term row \<le> current_term (replicas s1 ! l)" "list_all valid_row g"
      using set [OF L(1)] settledD(6) [OF set [OF L(1)]] L(2) by (auto simp: settled_def)
    then have "settled (installed (current_term (replicas s1 ! l)) g (replicas s1 ! i)) g"
      using settledD(1) [OF set [OF i1(1)]] by (intro settled_installed)
    moreover have "current_term (replicas s1 ! i) \<le> current_term (replicas s1 ! l)"
      using s1(3) i1(1) by (simp add: leader_ok_def)
    ultimately have s2: "shard_inv s2 g" "same_group s1 s2"
      using replace_follower_inv [OF s1(2,3) i1(1)] s1(2) by (auto simp: s2_def)
    have "rep_log (replicas s2 ! i) = g" using L i1 by (auto simp: s2_def)
    moreover have "leader_id s2 = leader_id s1" by (simp add: s2_def)
    ultimately show ?thesis
      using that [OF run s2(1)] same_group_trans [OF s1(4) s2(2)] leader_online [OF s1(3)] s1(5) s(2) True
        same_group_ids(2) [OF s2(2)] by auto
  qed
qed

end
