(* ===== verification/Recovery.thy ===== *)
theory Recovery
  imports Shard_Operations
begin

text \<open>
  Opening the database files: what the constructors \<open>RaftReplica\<close> and \<open>Shard\<close> make of them. A new
  file gives an empty replica; the file of a replica that satisfied its invariant gives the replica
  back, as a follower that is online. The numbers of the \<open>meta\<close> table are decimal texts, so they
  come back only while they fit into 64 bits.
\<close>

subsection \<open>One replica\<close>

definition reopened :: "nat \<Rightarrow> int \<Rightarrow> raft_replica \<Rightarrow> raft_replica" where
  "reopened sid now r = r\<lparr>replica_shard_id := sid, store := (store r)\<lparr>epoch := now\<rparr>, replica_role := Follower, online := True,
     voted_for := c_str (voted_for r)\<rparr>"

definition fits :: "raft_replica \<Rightarrow> bool" where
  "fits r \<longleftrightarrow> in_int64 (current_term r) \<and> in_int64 (commit_index r)"

definition blank_replica :: "string \<Rightarrow> nat \<Rightarrow> sqlite_store \<Rightarrow> raft_replica" where
  "blank_replica rid sid st = \<lparr>replica_id = rid, replica_shard_id = sid, store = st,
     replica_role = Follower, online = True, current_term = 0, voted_for = [],
     commit_index = 0, last_applied = 0\<rparr>"

lemma wp_get_meta:
  "storage_ok r \<Longrightarrow> c_str key = key \<Longrightarrow> wp (on_store (get_meta key)) Q E r = Q (rep_meta r key) r"
  by (simp add: wp_on_store get_meta_def wp_query storage_okD rep_meta_def)

lemma wp_load_int:
  assumes "storage_ok r" and "c_str key = key" and "in_int64 i"
    and "case rep_meta r key of None \<Rightarrow> assign i r = r | Some s \<Rightarrow> s = to_string i"
  shows "wp (load_int key assign) Q E r = Q () (assign i r)"
  using assms by (auto simp: load_int_def wp_get_meta ll.decode_encode split: option.splits)

lemma wp_load_state:
  assumes ok: "storage_ok r" and fields: "current_term r = 0" "voted_for r = []" "commit_index r = 0" "last_applied r = 0"
    and fits: "in_int64 t" "in_int64 c"
    and meta: "case rep_meta r ''current_term'' of None \<Rightarrow> t = 0 | Some s \<Rightarrow> s = to_string t"
      "case rep_meta r ''voted_for'' of None \<Rightarrow> v = [] | Some s \<Rightarrow> s = v"
      "case rep_meta r ''commit_index'' of None \<Rightarrow> c = 0 | Some s \<Rightarrow> s = to_string c"
      "case rep_meta r ''last_applied'' of None \<Rightarrow> c = 0 | Some s \<Rightarrow> s = to_string c"
  shows "wp load_state Q E r = Q () (r\<lparr>current_term := t, voted_for := v, commit_index := c, last_applied := c\<rparr>)"
proof -
  let ?r1 = "r\<lparr>current_term := t\<rparr>" and ?r2 = "r\<lparr>current_term := t, voted_for := v\<rparr>"
  let ?r3 = "r\<lparr>current_term := t, voted_for := v, commit_index := c\<rparr>"
  have 1: "wp (load_int ''current_term'' (\<lambda>i r. r\<lparr>current_term := i\<rparr>)) Q E r = Q () ?r1" for Q E
    using ok fits meta(1) fields by (intro wp_load_int) (auto split: option.splits)
  have 2: "wp (load_int ''commit_index'' (\<lambda>i r. r\<lparr>commit_index := i\<rparr>)) Q E ?r2 = Q () ?r3" for Q E
    using ok fits meta(3) fields by (intro wp_load_int) (auto split: option.splits)
  have 3: "wp (load_int ''last_applied'' (\<lambda>i r. r\<lparr>last_applied := i\<rparr>)) Q E ?r3 = Q () (?r3\<lparr>last_applied := c\<rparr>)" for Q E
    using ok fits meta(4) fields by (intro wp_load_int) (auto split: option.splits)
  have same: "?r2 = ?r1" if "v = []" using that fields(2) by (cases r) simp
  show ?thesis
  proof (cases "rep_meta r ''voted_for''")
    case None
    then have "v = []" using meta(2) by simp
    then have "wp (load_int ''current_term'' (\<lambda>i r. r\<lparr>current_term := i\<rparr>)) Q E r = Q () ?r2" for Q E
      using 1 same by metis
    then show ?thesis using ok None by (simp add: load_state_def 2 3 wp_get_meta)
  next
    case (Some x)
    then show ?thesis using ok meta(2) by (simp add: load_state_def 1 2 3 wp_get_meta)
  qed
qed

lemma RaftReplica_healthy:
  "RaftReplica rid sid file [] now =
    (case load_state (blank_replica rid sid \<lparr>db = (case file of None \<Rightarrow> no_rows | Some t \<Rightarrow> t),
        saved = None, faults = [], epoch = now\<rparr>) of
       (Inl e, _) \<Rightarrow> Inl e | (Inr _, r) \<Rightarrow> Inr r)"
  by (simp add: RaftReplica_def SqliteStore_healthy blank_replica_def)

lemma RaftReplica_runs:
  assumes "\<And>Q E. wp load_state Q E (blank_replica rid sid \<lparr>db = (case file of None \<Rightarrow> no_rows | Some t \<Rightarrow> t),
      saved = None, faults = [], epoch = now\<rparr>) = Q () r"
  shows "RaftReplica rid sid file [] now = Inr r"
proof -
  have "runs load_state (\<lambda>_ r'. r' = r) (blank_replica rid sid \<lparr>db = (case file of None \<Rightarrow> no_rows | Some t \<Rightarrow> t),
      saved = None, faults = [], epoch = now\<rparr>)"
    using assms by simp
  then show ?thesis by (auto simp: RaftReplica_healthy runs_iff)
qed

lemma reopened_views [simp]:
  "rep_log (reopened sid now r) = rep_log r" "rep_kv (reopened sid now r) = rep_kv r"
  "replica_id (reopened sid now r) = replica_id r" "online (reopened sid now r)"
  "current_term (reopened sid now r) = current_term r" "commit_index (reopened sid now r) = commit_index r"
  by (simp_all add: reopened_def rep_log_def rep_kv_def)

lemma replica_inv_reopened: "replica_inv r \<Longrightarrow> replica_inv (reopened sid now r)"
  by (simp add: replica_inv_def state_ok_def storage_ok_def meta_ok_def meta_is_def rep_meta_def
      rep_log_def rep_kv_def reopened_def healthy_def c_str_idem split: option.splits)

lemma settled_reopened: "settled r g \<Longrightarrow> settled (reopened sid now r) g"
  by (simp add: settled_def replica_inv_reopened)

lemma RaftReplica_reopen:
  assumes inv: "replica_inv r" and fits: "fits r"
  shows "RaftReplica (replica_id r) sid (Some (durable (store r))) [] now = Inr (reopened sid now r)"
proof (rule RaftReplica_runs)
  fix Q E
  let ?st = "\<lparr>db = db (store r), saved = None, faults = [], epoch = now\<rparr>"
  let ?r = "blank_replica (replica_id r) sid ?st"
  have ok: "storage_ok r" "last_applied r = commit_index r" and meta: "meta_ok r"
    using inv by (simp_all add: replica_inv_def state_ok_def)
  have store: "saved (store r) = None" "faults (store r) = []"
    using storage_okD(1) [OF ok(1)] by (simp_all add: healthy_def)
  have "storage_ok ?r" "rep_meta ?r = rep_meta r"
    using ok(1) by (simp_all add: storage_ok_def blank_replica_def rep_log_def rep_meta_def healthy_def)
  then have "wp load_state Q E ?r = Q () (?r\<lparr>current_term := current_term r, voted_for := c_str (voted_for r),
      commit_index := commit_index r, last_applied := commit_index r\<rparr>)"
    using meta fits ok(2)
    by (intro wp_load_state) (auto simp: blank_replica_def meta_ok_def meta_is_def fits_def split: option.splits)
  moreover have "?r\<lparr>current_term := current_term r, voted_for := c_str (voted_for r),
      commit_index := commit_index r, last_applied := commit_index r\<rparr> = reopened sid now r"
    using ok(2) store by (cases r, cases "store r") (simp add: blank_replica_def reopened_def)
  ultimately show "wp load_state Q E (blank_replica (replica_id r) sid
      \<lparr>db = (case Some (durable (store r)) of None \<Rightarrow> no_rows | Some t \<Rightarrow> t), saved = None, faults = [], epoch = now\<rparr>) =
      Q () (reopened sid now r)"
    using store by (simp add: durable_def)
qed

lemma RaftReplica_fresh:
  fixes rid sid now
  defines "r \<equiv> blank_replica rid sid \<lparr>db = no_rows, saved = None, faults = [], epoch = now\<rparr>"
  shows "RaftReplica rid sid None [] now = Inr r" and "settled r []"
    and "replica_id r = rid" "online r" "rep_log r = []"
proof -
  have ok: "storage_ok r" "rep_meta r = Map.empty" "rep_log r = []"
    by (simp_all add: r_def storage_ok_def blank_replica_def rep_log_def rep_meta_def healthy_def no_rows_def
        select_key_def fun_eq_iff)
  have "wp load_state Q E r = Q () (r\<lparr>current_term := 0, voted_for := [], commit_index := 0, last_applied := 0\<rparr>)" for Q E
    using ok by (intro wp_load_state) (auto simp: r_def blank_replica_def in_int64_def)
  moreover have "r\<lparr>current_term := 0, voted_for := [], commit_index := 0, last_applied := 0\<rparr> = r"
    by (simp add: r_def blank_replica_def)
  ultimately show "RaftReplica rid sid None [] now = Inr r"
    by (intro RaftReplica_runs) (simp add: r_def)
  show "settled r []"
    using ok by (simp add: settled_def replica_inv_def state_ok_def meta_ok_def meta_is_def replay_def)
      (simp add: r_def blank_replica_def rep_kv_def no_rows_def select_key_def fun_eq_iff)
  show "replica_id r = rid" "online r" "rep_log r = []" using ok by (simp_all add: r_def blank_replica_def)
qed

subsection \<open>The shard\<close>

lemma open_replicas_map:
  "(\<And>i. i \<in> set ps \<Longrightarrow> RaftReplica (replica_name sid i) sid (files (replica_name sid i))
      (eng (replica_name sid i)) now = Inr (f i)) \<Longrightarrow>
    open_replicas sid files eng now ps = Inr (map f ps)"
  by (induction ps) (simp_all add: Let_def)

text \<open>The constructor elects a leader among the replicas it opened.\<close>

lemma Shard_opens:
  assumes "open_replicas sid files eng now [0..<n] = Inr rs" and "0 < n" and names: "map replica_id rs = names"
    and inv: "shard_inv \<lparr>shard_id = sid, replicas = rs, leader_id = [], shard_metrics = m\<rparr> g"
    and on: "\<forall>r \<in> set rs. online r"
  obtains s' where "Shard sid n files eng now m = Inr s'" and "shard_inv s' g" and "shard_id s' = sid"
    and "map replica_id (replicas s') = names" and "online_ids s' = set names"
    and "leader_id s' \<in> online_ids s'"
proof -
  let ?s = "\<lparr>shard_id = sid, replicas = rs, leader_id = [], shard_metrics = m\<rparr>"
  have "online_list ?s = [0..<length rs]" and ids: "online_ids ?s = set names"
    using on by (auto simp: online_list_def online_ids_def simp flip: names)
  then have q: "has_quorum ?s"
    using inv quorums.reachable [of "length rs"] by (auto simp: has_quorum_def shard_inv_def ids_ok_def)
  then obtain s' where s': "shard_elect_leader ?s = (Inr True, s')" "shard_inv s' g" "same_group ?s s'"
      "leader_id s' \<in> online_ids ?s"
    using shard_elect_ok [OF inv] by auto
  show ?thesis
    using that [of s'] s' assms(1-3) same_group_ids [OF s'(3)] ids by (simp add: Shard_def same_group_def)
qed

text \<open>The files that a shard leaves behind when the process stops.\<close>

definition disk_of :: "shard \<Rightarrow> disk" where
  "disk_of s = map_of (map (\<lambda>r. (replica_id r, durable (store r))) (replicas s))"

lemma disk_of_nth:
  assumes "ids_ok s" and "i < length (replicas s)"
  shows "disk_of s (replica_id (replicas s ! i)) = Some (durable (store (replicas s ! i)))"
  unfolding disk_of_def using assms by (intro map_of_is_SomeI) (auto simp: ids_ok_def comp_def)

definition named :: "shard \<Rightarrow> bool" where
  "named s \<longleftrightarrow> map replica_id (replicas s) = map (replica_name (shard_id s)) [0..<length (replicas s)]"

lemma Shard_reopen:
  assumes inv: "shard_inv s g" and name: "named s" and fits: "\<forall>r \<in> set (replicas s). fits r"
  obtains s' where "Shard (shard_id s) (length (replicas s)) (disk_of s) (\<lambda>_. []) now m = Inr s'"
    and "shard_inv s' g" and "shard_id s' = shard_id s"
    and "map replica_id (replicas s') = map replica_id (replicas s)"
    and "online_ids s' = set (map replica_id (replicas s))" and "leader_id s' \<in> online_ids s'"
proof -
  let ?sid = "shard_id s" and ?rs = "replicas s" and ?f = "\<lambda>i. reopened (shard_id s) now (replicas s ! i)"
  let ?s = "\<lparr>shard_id = ?sid, replicas = map ?f [0..<length ?rs], leader_id = [], shard_metrics = m\<rparr>"
  have ids: "ids_ok s" using inv by (simp add: shard_inv_def)
  have rid: "replica_name ?sid i = replica_id (?rs ! i)" if "i < length ?rs" for i
    using arg_cong [OF name [unfolded named_def], of "\<lambda>xs. xs ! i"] that by simp
  have set: "settled (?rs ! i) g" if "i < length ?rs" for i using inv that by (rule shard_invD)
  have op: "open_replicas ?sid (disk_of s) (\<lambda>_. []) now [0..<length ?rs] = Inr (map ?f [0..<length ?rs])"
    using rid disk_of_nth [OF ids] settledD(3) [OF set] fits
    by (intro open_replicas_map) (simp add: RaftReplica_reopen)
  have same: "map replica_id (map ?f [0..<length ?rs]) = map replica_id ?rs"
    by (intro nth_equalityI) simp_all
  have "ids_ok ?s"
    using ids same by (simp add: ids_ok_def)
  moreover have "holders ?s g = holders s g" by (auto simp: holders_def)
  moreover have "roles_ok ?s" by (simp add: roles_ok_def reopened_def)
  ultimately have inv': "shard_inv ?s g"
    using inv set by (simp add: shard_inv_def settled_reopened)
  have "0 < length ?rs" using ids by (simp add: ids_ok_def)
  then show ?thesis by (rule Shard_opens [OF op _ same inv']) (auto intro: that)
qed

lemma nat_to_string_inj: "nat_to_string a = nat_to_string b \<longleftrightarrow> a = b"
  by (metis digits_value_nat_to_string)

lemma replica_name_inj: "replica_name sid i = replica_name sid j \<longleftrightarrow> i = j"
  by (simp add: replica_name_def nat_to_string_inj)

lemma Shard_fresh:
  assumes "0 < n"
  obtains s where "Shard sid n (\<lambda>_. None) (\<lambda>_. []) now m = Inr s" and "shard_inv s []" and "shard_id s = sid"
    and "map replica_id (replicas s) = map (replica_name sid) [0..<n]"
    and "online_ids s = replica_name sid ` {..<n}" and "leader_id s \<in> online_ids s"
proof -
  let ?f = "\<lambda>i. blank_replica (replica_name sid i) sid \<lparr>db = no_rows, saved = None, faults = [], epoch = now\<rparr>"
  let ?s = "\<lparr>shard_id = sid, replicas = map ?f [0..<n], leader_id = [], shard_metrics = m\<rparr>"
  note f = RaftReplica_fresh [of _ sid now]
  have op: "open_replicas sid (\<lambda>_. None) (\<lambda>_. []) now [0..<n] = Inr (map ?f [0..<n])"
    using f(1) by (intro open_replicas_map) simp
  have ids: "map replica_id (map ?f [0..<n]) = map (replica_name sid) [0..<n]"
    using f(3) by simp
  have "distinct (map (replica_name sid) [0..<n])"
    by (simp add: distinct_map inj_on_def replica_name_inj)
  moreover have "replica_name sid i \<noteq> []" for i by (simp add: replica_name_def)
  moreover have "roles_ok ?s" by (simp add: roles_ok_def blank_replica_def)
  moreover have "holders ?s [] = {..<n}" using f(5) by (auto simp: holders_def)
  ultimately have inv: "shard_inv ?s []"
    using assms f(2,3) quorums.reachable [OF assms] by (simp add: shard_inv_def ids_ok_def log_wf_def comp_def)
  have "\<forall>r \<in> set (map ?f [0..<n]). online r" using f(4) by simp
  then show ?thesis
    by (rule Shard_opens [OF op assms ids inv]) (rule that, auto simp: atLeast0LessThan)
qed

end
