(* ===== verification/Shard_Spec.thy ===== *)
theory Shard_Spec
  imports Recovery
begin

text \<open>
  The abstract specification of a shard and the proof that the code implements it.

  A \<open>service\<close> is what a client and an operator can know about a shard: the key-value content as a
  map, the replicas, which of them are up, and who leads. \<open>spec_step q a m m'\<close> says that the request
  \<open>q\<close> may be answered by \<open>a\<close> while the service goes from \<open>m\<close> to \<open>m'\<close>. \<open>implements s m\<close> relates
  a shard to its service. The simulation lemma \<open>serve_refines\<close> shows that every request on a shard
  whose engines report no errors returns, and is a step of the specification; the properties below
  are consequences for arbitrary sequences of requests.
\<close>

subsection \<open>Requests and the specification\<close>

datatype request = Put string string | Erase string | Get string | Fail string | Recover string | Elect

type_synonym answer = "operation_result + bool"

text \<open>The public member function that a request calls.\<close>

definition serve :: "request \<Rightarrow> (shard, answer) op" where
  "serve q =
    (case q of
       Put k v \<Rightarrow> bindE (shard_put k v) (\<lambda>r. ret (Inl r))
     | Erase k \<Rightarrow> bindE (shard_erase k) (\<lambda>r. ret (Inl r))
     | Get k \<Rightarrow> bindE (shard_get k) (\<lambda>r. ret (Inl r))
     | Fail rid \<Rightarrow> bindE (shard_fail_replica rid) (\<lambda>b. ret (Inr b))
     | Recover rid \<Rightarrow> bindE (shard_recover_replica rid) (\<lambda>b. ret (Inr b))
     | Elect \<Rightarrow> bindE shard_elect_leader (\<lambda>b. ret (Inr b)))"

record service =
  content :: "string \<Rightarrow> string option"
  members :: "string list"
  up :: "string set"
  leader :: string

definition majority_up :: "service \<Rightarrow> bool" where
  "majority_up m \<longleftrightarrow> quorum_size (length (members m)) \<le> card (up m)"

text \<open>\<open>d\<close> may lead: the present leader, or after an election any replica that is up.\<close>

definition may_lead :: "service \<Rightarrow> string \<Rightarrow> bool" where
  "may_lead m d \<longleftrightarrow> d \<in> up m \<and> (leader m \<noteq> [] \<longrightarrow> d = leader m)"

definition refusal :: "operation_result \<Rightarrow> bool" where
  "refusal r \<longleftrightarrow> \<not> res_ok r \<and> res_status r = 503 \<and> res_value r = []"

definition success :: "int \<Rightarrow> string \<Rightarrow> string \<Rightarrow> operation_result \<Rightarrow> bool" where
  "success st v d r \<longleftrightarrow> res_ok r \<and> res_status r = st \<and> res_value r = v \<and> res_leader r = d"

inductive spec_step :: "request \<Rightarrow> answer \<Rightarrow> service \<Rightarrow> service \<Rightarrow> bool" where
  put: "majority_up m \<Longrightarrow> may_lead m d \<Longrightarrow> success 201 [] d r \<Longrightarrow>
    spec_step (Put k v) (Inl r) m (m\<lparr>content := (content m)(c_str k \<mapsto> v), leader := d\<rparr>)"
| put_refused: "\<not> majority_up m \<Longrightarrow> refusal r \<Longrightarrow> spec_step (Put k v) (Inl r) m m"
| erase: "majority_up m \<Longrightarrow> may_lead m d \<Longrightarrow> success 200 [] d r \<Longrightarrow>
    spec_step (Erase k) (Inl r) m (m\<lparr>content := (content m)(c_str k := None), leader := d\<rparr>)"
| erase_refused: "\<not> majority_up m \<Longrightarrow> refusal r \<Longrightarrow> spec_step (Erase k) (Inl r) m m"
| found: "leader m \<noteq> [] \<or> majority_up m \<Longrightarrow> may_lead m d \<Longrightarrow> content m (c_str k) = Some v \<Longrightarrow>
    success 200 v d r \<Longrightarrow> spec_step (Get k) (Inl r) m (m\<lparr>leader := d\<rparr>)"
| missing: "leader m \<noteq> [] \<or> majority_up m \<Longrightarrow> may_lead m d \<Longrightarrow> content m (c_str k) = None \<Longrightarrow>
    \<not> res_ok r \<Longrightarrow> res_status r = 404 \<Longrightarrow> spec_step (Get k) (Inl r) m (m\<lparr>leader := d\<rparr>)"
| get_refused: "leader m = [] \<Longrightarrow> \<not> majority_up m \<Longrightarrow> refusal r \<Longrightarrow> spec_step (Get k) (Inl r) m m"
| fail: "rid \<in> set (members m) \<Longrightarrow> spec_step (Fail rid) (Inr True) m
    (m\<lparr>up := up m - {rid}, leader := (if leader m = rid then [] else leader m)\<rparr>)"
| recover: "rid \<in> set (members m) \<Longrightarrow> m1 = m\<lparr>up := insert rid (up m)\<rparr> \<Longrightarrow>
    (if leader m1 \<noteq> [] \<or> majority_up m1 then may_lead m1 d else d = []) \<Longrightarrow>
    spec_step (Recover rid) (Inr True) m (m1\<lparr>leader := d\<rparr>)"
| fail_unknown: "rid \<notin> set (members m) \<Longrightarrow> spec_step (Fail rid) (Inr False) m m"
| recover_unknown: "rid \<notin> set (members m) \<Longrightarrow> spec_step (Recover rid) (Inr False) m m"
| elect: "leader m \<noteq> [] \<or> majority_up m \<Longrightarrow> may_lead m d \<Longrightarrow>
    spec_step Elect (Inr True) m (m\<lparr>leader := d\<rparr>)"
| elect_refused: "leader m = [] \<Longrightarrow> \<not> majority_up m \<Longrightarrow> spec_step Elect (Inr False) m m"

inductive_cases spec_step_PutE: "spec_step (Put k v) a m m'"
inductive_cases spec_step_EraseE: "spec_step (Erase k) a m m'"
inductive_cases spec_step_GetE: "spec_step (Get k) a m m'"
inductive_cases spec_step_FailE: "spec_step (Fail rid) a m m'"
inductive_cases spec_step_RecoverE: "spec_step (Recover rid) a m m'"
inductive_cases spec_step_ElectE: "spec_step Elect a m m'"

subsection \<open>The relation between a shard and its service\<close>

definition service_of :: "shard \<Rightarrow> log_columns list \<Rightarrow> service" where
  "service_of s g = \<lparr>content = replay g, members = map replica_id (replicas s),
     up = online_ids s, leader = leader_id s\<rparr>"

definition implements :: "shard \<Rightarrow> service \<Rightarrow> bool" where
  "implements s m \<longleftrightarrow> (\<exists>g. shard_inv s g \<and> m = service_of s g)"

lemma service_of_sel [simp]:
  "content (service_of s g) = replay g" "members (service_of s g) = map replica_id (replicas s)"
  "up (service_of s g) = online_ids s" "leader (service_of s g) = leader_id s"
  by (simp_all add: service_of_def)

lemma majority_up_iff:
  assumes "ids_ok s"
  shows "majority_up (service_of s g) \<longleftrightarrow> has_quorum s"
proof -
  have "online_ids s = (\<lambda>i. replica_id (replicas s ! i)) ` set (online_list s)"
    by (auto simp: online_ids_iff image_iff Bex_def)
  moreover have "inj_on (\<lambda>i. replica_id (replicas s ! i)) (set (online_list s))"
    using replica_id_eq [OF assms] by (auto simp: inj_on_def)
  ultimately have "card (online_ids s) = length (online_list s)"
    by (simp add: card_image distinct_card)
  then show ?thesis by (simp add: majority_up_def has_quorum_def)
qed

lemma service_of_eq:
  assumes "same_group s s'"
  shows "service_of s' g' = (service_of s g)\<lparr>content := replay g', leader := leader_id s'\<rparr>"
  using same_group_ids [OF assms] by (simp add: service_of_def)

lemma leader_up: "shard_inv s g \<Longrightarrow> leader_id s \<noteq> [] \<Longrightarrow> leader_id s \<in> online_ids s"
  using leader_online by (auto simp: shard_inv_def)

lemma apply_write_row:
  "apply_row (write_row t ''PUT'' k v) m = m(c_str k \<mapsto> v)"
  "apply_row (write_row t ''DELETE'' k v) m = m(c_str k := None)"
  by (simp_all add: write_row_def apply_row_def)

lemma serve_run: "m s = (Inr x, t) \<Longrightarrow> bindE m (\<lambda>r. ret (f r)) s = (Inr (f x), t)"
  by (simp add: bindE_def ret_def)

subsection \<open>The simulation\<close>

definition refines :: "request \<Rightarrow> shard \<Rightarrow> service \<Rightarrow> bool" where
  "refines q s m \<longleftrightarrow> (\<exists>a s' m'. serve q s = (Inr a, s') \<and> spec_step q a m m' \<and> implements s' m')"

lemma refinesI:
  assumes "serve q s = (Inr a, s')" and "spec_step q a m m'" and "shard_inv s' g'" and "m' = service_of s' g'"
  shows "refines q s m"
  using assms by (auto simp: refines_def implements_def)

lemma command_cases:
  assumes inv: "shard_inv s g" and c: "c = ''PUT'' \<or> c = ''DELETE''"
  obtains (committed) s' t r d where "replicate_command_locked c k v s = (Inr r, s')"
      "majority_up (service_of s g)" "may_lead (service_of s g) d"
      "success (if c = ''DELETE'' then 200 else 201) [] d r" "shard_inv s' (g @ [write_row t c k v])"
      "service_of s' (g @ [write_row t c k v]) =
        (service_of s g)\<lparr>content := replay (g @ [write_row t c k v]), leader := d\<rparr>"
  | (refused) s' r where "replicate_command_locked c k v s = (Inr r, s')"
      "\<not> majority_up (service_of s g)" "refusal r" "shard_inv s' g" "service_of s' g = service_of s g"
proof (cases "has_quorum s")
  case True
  have maj: "majority_up (service_of s g)"
    using inv True majority_up_iff [of s g] by (simp add: shard_inv_def)
  show ?thesis
  proof (rule replicate_command_ok [OF inv True c, of k v])
    fix s' t r
    assume "replicate_command_locked c k v s = (Inr r, s')" "shard_inv s' (g @ [write_row t c k v])"
      and "same_group s s'" "leader_id s' \<in> replica_id ` {r \<in> set (replicas s). online r}"
      and "leader_id s \<noteq> [] \<Longrightarrow> leader_id s' = leader_id s"
      and "r = \<lparr>res_ok = True, res_status = (if c = ''DELETE'' then 200 else 201),
       res_message = (if c = ''DELETE'' then ''deleted'' else ''stored''), res_value = [],
       res_shard = shard_id s, res_leader = leader_id s'\<rparr>"
    then show ?thesis
      using service_of_eq [of s s' "g @ [write_row t c k v]" g] maj
      by (intro committed [of r s' "leader_id s'"]) (simp_all add: may_lead_def online_ids_def success_def)
  qed
next
  case False
  have maj: "\<not> majority_up (service_of s g)"
    using inv False majority_up_iff [of s g] by (simp add: shard_inv_def)
  show ?thesis
  proof (rule replicate_command_rejected [OF inv False c, of k v])
    fix s' r
    assume "replicate_command_locked c k v s = (Inr r, s')" "shard_inv s' g" "same_group s s'"
      "leader_id s' = leader_id s" "\<not> res_ok r" "res_status r = 503" "res_value r = []"
    then show ?thesis
      using service_of_eq [of s s' g g] maj
      by (intro refused [of r s']) (simp_all add: refusal_def service_of_def)
  qed
qed

lemma write_refines:
  assumes inv: "shard_inv s g"
  shows "refines (Put k v) s (service_of s g)" and "refines (Erase k) s (service_of s g)"
proof -
  show "refines (Put k v) s (service_of s g)"
  proof (cases rule: command_cases [OF inv disjI1 [OF refl], of k v])
    case (1 s' t r d)
    then show ?thesis
      using refinesI [where s = s, OF _ spec_step.put [of "service_of s g" d r k v] 1(5)]
      by (simp add: serve_def shard_put_def serve_run apply_write_row)
  next
    case (2 s' r)
    then have "serve (Put k v) s = (Inr (Inl r), s')" by (simp add: serve_def shard_put_def serve_run)
    then show ?thesis by (rule refinesI [OF _ spec_step.put_refused [OF 2(2,3)] 2(4) 2(5) [symmetric]])
  qed
  show "refines (Erase k) s (service_of s g)"
  proof (cases rule: command_cases [OF inv disjI2 [OF refl], of k "[]"])
    case (1 s' t r d)
    then show ?thesis
      using refinesI [where s = s, OF _ spec_step.erase [of "service_of s g" d r k] 1(5)]
      by (simp add: serve_def shard_erase_def serve_run apply_write_row)
  next
    case (2 s' r)
    then have "serve (Erase k) s = (Inr (Inl r), s')" by (simp add: serve_def shard_erase_def serve_run)
    then show ?thesis by (rule refinesI [OF _ spec_step.erase_refused [OF 2(2,3)] 2(4) 2(5) [symmetric]])
  qed
qed

lemma get_refines:
  assumes inv: "shard_inv s g"
  shows "refines (Get k) s (service_of s g)"
proof (cases "leader_id s \<noteq> [] \<or> has_quorum s")
  case True
  have maj: "majority_up (service_of s g) \<longleftrightarrow> has_quorum s"
    using inv by (intro majority_up_iff) (simp add: shard_inv_def)
  obtain s' where s': "shard_get k s = (Inr (read_result s' (replay g (c_str k))), s')" "shard_inv s' g"
    "same_group s s'" "leader_id s' \<in> online_ids s" "leader_id s \<noteq> [] \<Longrightarrow> s' = s"
    using shard_get_ok [OF inv True] by blast
  then have run: "serve (Get k) s = (Inr (Inl (read_result s' (replay g (c_str k)))), s')"
    by (simp add: serve_def serve_run)
  have eq: "(service_of s g)\<lparr>leader := leader_id s'\<rparr> = service_of s' g"
    using service_of_eq [OF s'(3), of g g] by (simp add: service_of_def)
  have "spec_step (Get k) (Inl (read_result s' (replay g (c_str k)))) (service_of s g)
      ((service_of s g)\<lparr>leader := leader_id s'\<rparr>)"
  proof (cases "replay g (c_str k)")
    case None
    then show ?thesis
      using s'(4,5) True maj by (intro spec_step.missing) (auto simp: may_lead_def read_result_def)
  next
    case (Some v)
    then show ?thesis
      using s'(4,5) True maj by (intro spec_step.found [of _ _ _ v]) (auto simp: may_lead_def read_result_def success_def)
  qed
  then show ?thesis by (rule refinesI [OF run _ s'(2) eq])
next
  case False
  have "spec_step (Get k) (Inl r) (service_of s g) (service_of s g)" if "refusal r" for r
    using False that inv majority_up_iff [of s g] by (intro spec_step.get_refused) (auto simp: shard_inv_def)
  then show ?thesis
    using shard_get_rejected [OF inv, of k] False inv
    by (intro refinesI [where g' = g]) (auto simp: serve_def serve_run refusal_def)
qed

lemma member_nth: "rid \<in> set (map replica_id (replicas s)) \<Longrightarrow> \<exists>i < length (replicas s). rid = replica_id (replicas s ! i)"
  by (auto simp: in_set_conv_nth)

lemma operator_refines:
  assumes inv: "shard_inv s g"
  shows "refines (Fail rid) s (service_of s g)" and "refines (Recover rid) s (service_of s g)"
    and "refines Elect s (service_of s g)"
proof -
  let ?m = "service_of s g"
  show "refines (Fail rid) s ?m"
  proof (cases "rid \<in> set (members ?m)")
    case True
    then obtain i where i: "i < length (replicas s)" "rid = replica_id (replicas s ! i)"
      using member_nth by auto
    note f = shard_fail_ok [OF inv i(1)]
    have "?m\<lparr>up := up ?m - {rid}, leader := (if leader ?m = rid then [] else leader ?m)\<rparr> = service_of (failed i s) g"
      using f(3,4) i(2) by (simp add: service_of_def) (simp add: failed_def)
    then show ?thesis
      using f(1,2) i(2) True by (intro refinesI [OF _ spec_step.fail f(2)]) (auto simp: serve_def serve_run)
  next
    case False
    then show ?thesis
      using shard_unknown_replica(1) [of rid s] inv
      by (intro refinesI [OF _ spec_step.fail_unknown inv]) (auto simp: serve_def serve_run)
  qed
  show "refines (Recover rid) s ?m"
  proof (cases "rid \<in> set (members ?m)")
    case True
    then obtain i where i: "i < length (replicas s)" "rid = replica_id (replicas s ! i)"
      using member_nth by auto
    let ?s1 = "rejoined i s"
    note r = rejoined_props [OF inv i(1)]
    have m1: "?m\<lparr>up := insert rid (up ?m)\<rparr> = service_of ?s1 g"
      using r(2,4,5) i(2) by (simp add: service_of_def)
    have maj: "majority_up (service_of ?s1 g) \<longleftrightarrow> has_quorum ?s1"
      using r(1) by (intro majority_up_iff) (simp add: shard_inv_def)
    obtain s' where s': "shard_recover_replica rid s = (Inr True, s')" "shard_inv s' g" "same_group ?s1 s'"
      "leader_id s \<noteq> [] \<or> has_quorum ?s1 \<Longrightarrow> leader_id s' \<in> online_ids s' \<and> rep_log (replicas s' ! i) = g"
      "leader_id s \<noteq> [] \<or> \<not> has_quorum ?s1 \<Longrightarrow> leader_id s' = leader_id s"
      using shard_recover_ok [OF inv i(1)] i(2) by metis
    have "if leader (service_of ?s1 g) \<noteq> [] \<or> majority_up (service_of ?s1 g)
        then may_lead (service_of ?s1 g) (leader_id s') else leader_id s' = []"
      using s'(4,5) maj r(2) same_group_ids(2) [OF s'(3)] by (auto simp: may_lead_def)
    then have "spec_step (Recover rid) (Inr True) ?m ((service_of ?s1 g)\<lparr>leader := leader_id s'\<rparr>)"
      using True m1 by (intro spec_step.recover) auto
    moreover have "(service_of ?s1 g)\<lparr>leader := leader_id s'\<rparr> = service_of s' g"
      using service_of_eq [OF s'(3), of g g] by (simp add: service_of_def)
    ultimately show ?thesis
      using s'(1) by (intro refinesI [OF _ _ s'(2)]) (auto simp: serve_def serve_run)
  next
    case False
    then show ?thesis
      using shard_unknown_replica(2) [of rid s] inv
      by (intro refinesI [OF _ spec_step.recover_unknown inv]) (auto simp: serve_def serve_run)
  qed
  have maj: "majority_up ?m \<longleftrightarrow> has_quorum s" using inv by (intro majority_up_iff) (simp add: shard_inv_def)
  obtain s' where s': "shard_elect_leader s = (Inr (leader_id s \<noteq> [] \<or> has_quorum s), s')"
    "shard_inv s' g" "same_group s s'" "leader_id s \<noteq> [] \<or> has_quorum s \<Longrightarrow> leader_id s' \<in> online_ids s"
    "leader_id s \<noteq> [] \<or> \<not> has_quorum s \<Longrightarrow> s' = s"
    using shard_elect_ok [OF inv] by blast
  have eq: "?m\<lparr>leader := leader_id s'\<rparr> = service_of s' g"
    using service_of_eq [OF s'(3), of g g] by (simp add: service_of_def)
  have "spec_step Elect (Inr (leader_id s \<noteq> [] \<or> has_quorum s)) ?m (?m\<lparr>leader := leader_id s'\<rparr>)"
  proof (cases "leader_id s \<noteq> [] \<or> has_quorum s")
    case True
    then show ?thesis using s'(4,5) maj spec_step.elect [of ?m "leader_id s'"] by (auto simp: may_lead_def)
  next
    case False
    then show ?thesis using s'(5) maj spec_step.elect_refused [of ?m] by (simp add: service_of_def)
  qed
  then show "refines Elect s ?m"
    using s'(1) by (intro refinesI [OF _ _ s'(2) eq]) (auto simp: serve_def serve_run)
qed

lemma serve_refines: "implements s m \<Longrightarrow> refines q s m"
  using write_refines get_refines operator_refines by (cases q) (auto simp: implements_def)

subsection \<open>Runs\<close>

fun serve_all :: "request list \<Rightarrow> (shard, answer list) op" where
  "serve_all [] = ret []"
| "serve_all (q # qs) = bindE (serve q) (\<lambda>a. bindE (serve_all qs) (\<lambda>as. ret (a # as)))"

inductive spec_run :: "request list \<Rightarrow> answer list \<Rightarrow> service \<Rightarrow> service \<Rightarrow> bool" where
  stop: "spec_run [] [] m m"
| step: "spec_step q a m m1 \<Longrightarrow> spec_run qs as m1 m2 \<Longrightarrow> spec_run (q # qs) (a # as) m m2"

text \<open>What an answer tells the client about the content: only acknowledged writes change it.\<close>

definition acknowledged :: "request \<times> answer \<Rightarrow> (string \<Rightarrow> string option) \<Rightarrow> string \<Rightarrow> string option" where
  "acknowledged = (\<lambda>(q, a) m.
    (case (q, a) of
       (Put k v, Inl r) \<Rightarrow> if res_ok r then m(c_str k \<mapsto> v) else m
     | (Erase k, Inl r) \<Rightarrow> if res_ok r then m(c_str k := None) else m
     | _ \<Rightarrow> m))"

lemma spec_step_content: "spec_step q a m m' \<Longrightarrow> content m' = acknowledged (q, a) (content m)"
  by (cases rule: spec_step.cases) (auto simp: acknowledged_def success_def refusal_def)

lemma spec_run_content:
  "spec_run qs as m m' \<Longrightarrow> content m' = fold acknowledged (zip qs as) (content m)"
  by (induction rule: spec_run.induct) (simp_all add: spec_step_content)

lemma spec_step_members: "spec_step q a m m' \<Longrightarrow> members m' = members m"
  by (cases rule: spec_step.cases) auto

lemma serve_all_refines:
  "implements s m \<Longrightarrow> \<exists>as s' m'. serve_all qs s = (Inr as, s') \<and> spec_run qs as m m' \<and> implements s' m'"
proof (induction qs arbitrary: s m)
  case Nil
  then show ?case by (auto simp: ret_def intro: spec_run.stop)
next
  case (Cons q qs)
  obtain a s1 m1 where 1: "serve q s = (Inr a, s1)" "spec_step q a m m1" "implements s1 m1"
    using serve_refines [OF Cons.prems] unfolding refines_def by blast
  obtain as s' m' where 2: "serve_all qs s1 = (Inr as, s')" "spec_run qs as m1 m'" "implements s' m'"
    using Cons.IH [OF 1(3)] by blast
  have "serve_all (q # qs) s = (Inr (a # as), s')"
    using 1(1) 2(1) by (simp add: bindE_def ret_def)
  then show ?case using 1 2 by (blast intro: spec_run.step)
qed

lemma fresh_implements:
  assumes "0 < n"
  obtains s where "Shard sid n (\<lambda>_. None) (\<lambda>_. []) now mt = Inr s"
    and "implements s \<lparr>content = Map.empty, members = map (replica_name sid) [0..<n],
      up = set (map (replica_name sid) [0..<n]), leader = leader_id s\<rparr>"
proof -
  obtain s where s: "Shard sid n (\<lambda>_. None) (\<lambda>_. []) now mt = Inr s" "shard_inv s []"
    "map replica_id (replicas s) = map (replica_name sid) [0..<n]" "online_ids s = replica_name sid ` {..<n}"
    using Shard_fresh [OF assms] by blast
  then have "service_of s [] = \<lparr>content = Map.empty, members = map (replica_name sid) [0..<n],
      up = set (map (replica_name sid) [0..<n]), leader = leader_id s\<rparr>"
    by (simp add: service_of_def replay_def atLeast0LessThan)
  then show ?thesis using that s(1,2) by (metis implements_def)
qed

end
