(* ===== verification/Shard_Theorems.thy ===== *)
theory Shard_Theorems
  imports Shard_Spec
begin

text \<open>
  What the simulation means for clients and operators of a shard: acknowledged writes are read, kept
  on a majority of the disks and survive restarts; a majority is enough to be served and without one
  no write happens; there is at most one leader, and a replica that returns catches up.
\<close>

text \<open>
  C1. Refinement: as long as the engines report no errors, every public operation of a shard
  returns, and its answer and effect are a step of the abstract service. The relation between
  shard and service holds again afterwards.
\<close>

theorem shard_refines_service:
  assumes "implements s m"
  shows "\<exists>a s' m'. serve q s = (Inr a, s') \<and> spec_step q a m m' \<and> implements s' m'"
  using serve_refines [OF assms] by (simp add: refines_def)

theorem shard_refines_service_witness:
  "\<exists>s m a s' m'. Shard 0 3 (\<lambda>_. None) (\<lambda>_. []) 0 Metrics = Inr s \<and> implements s m \<and> content m = Map.empty \<and>
    serve (Put ''k'' ''v'') s = (Inr a, s') \<and> spec_step (Put ''k'' ''v'') a m m' \<and> implements s' m'"
proof -
  obtain s m where s: "Shard 0 3 (\<lambda>_. None) (\<lambda>_. []) 0 Metrics = Inr s" "implements s m" "content m = Map.empty"
    by (rule fresh_implements [of 3 0 0 Metrics]) auto
  with shard_refines_service [OF s(2), of "Put ''k'' ''v''"] show ?thesis by blast
qed

text \<open>
  C3. Acknowledged writes, and only they, are read: start a shard of any size on an empty disk and
  send it any sequence of writes, deletes, reads, replica failures, recoveries and elections. Every
  request returns. A read that follows is either refused with 503, or answers exactly what the
  acknowledged writes say: 200 with the last acknowledged value of the key, or 404.
\<close>

theorem acknowledged_writes_are_read:
  assumes "0 < n"
  shows "\<exists>s. Shard sid n (\<lambda>_. None) (\<lambda>_. []) now mt = Inr s \<and>
    (\<forall>qs. \<exists>as s'. serve_all qs s = (Inr as, s') \<and>
      (\<forall>k. \<exists>r s''. shard_get k s' = (Inr r, s'') \<and>
        (res_status r = 503 \<or>
         (case fold acknowledged (zip qs as) Map.empty (c_str k) of
            Some v \<Rightarrow> res_status r = 200 \<and> res_value r = v
          | None \<Rightarrow> res_status r = 404))))"
proof -
  obtain s where s: "Shard sid n (\<lambda>_. None) (\<lambda>_. []) now mt = Inr s"
    "implements s \<lparr>content = Map.empty, members = map (replica_name sid) [0..<n],
      up = set (map (replica_name sid) [0..<n]), leader = leader_id s\<rparr>"
    using fresh_implements [OF assms] by blast
  have "\<exists>as s'. serve_all qs s = (Inr as, s') \<and> (\<forall>k. \<exists>r s''. shard_get k s' = (Inr r, s'') \<and>
        (res_status r = 503 \<or> (case fold acknowledged (zip qs as) Map.empty (c_str k) of
            Some v \<Rightarrow> res_status r = 200 \<and> res_value r = v | None \<Rightarrow> res_status r = 404)))" for qs
  proof -
    obtain as s' m' where r: "serve_all qs s = (Inr as, s')" "implements s' m'"
      "content m' = fold acknowledged (zip qs as) Map.empty"
      using serve_all_refines [OF s(2), of qs] spec_run_content by fastforce
    have "\<exists>r s''. shard_get k s' = (Inr r, s'') \<and> (res_status r = 503 \<or>
        (case content m' (c_str k) of Some v \<Rightarrow> res_status r = 200 \<and> res_value r = v | None \<Rightarrow> res_status r = 404))" for k
      using serve_refines [OF r(2), of "Get k"]
      by (auto simp: refines_def serve_def bindE_def ret_def success_def refusal_def
          elim!: spec_step_GetE split: prod.splits sum.splits option.splits)
    then show ?thesis using r by metis
  qed
  then show ?thesis using s(1) by blast
qed

theorem acknowledged_writes_are_read_witness:
  "\<exists>s. Shard 1 3 (\<lambda>_. None) (\<lambda>_. []) 0 Metrics = Inr s \<and>
    (\<forall>qs. \<exists>as s'. serve_all qs s = (Inr as, s') \<and>
      (\<forall>k. \<exists>r s''. shard_get k s' = (Inr r, s'') \<and>
        (res_status r = 503 \<or>
         (case fold acknowledged (zip qs as) Map.empty (c_str k) of
            Some v \<Rightarrow> res_status r = 200 \<and> res_value r = v
          | None \<Rightarrow> res_status r = 404))))"
  by (rule acknowledged_writes_are_read) simp

lemma fresh_shard:
  assumes "0 < n"
  shows "\<exists>s m. Shard sid n (\<lambda>_. None) (\<lambda>_. []) now mt = Inr s \<and> implements s m \<and>
    content m = Map.empty \<and> majority_up m \<and> members m = map (replica_name sid) [0..<n] \<and> up m = set (members m)"
proof -
  obtain s where s: "Shard sid n (\<lambda>_. None) (\<lambda>_. []) now mt = Inr s"
    "implements s \<lparr>content = Map.empty, members = map (replica_name sid) [0..<n],
      up = set (map (replica_name sid) [0..<n]), leader = leader_id s\<rparr>"
    using fresh_implements [OF assms] by blast
  have "card (replica_name sid ` {0..<n}) = n"
    by (simp add: card_image inj_on_def replica_name_inj)
  then have "majority_up \<lparr>content = Map.empty, members = map (replica_name sid) [0..<n],
      up = set (map (replica_name sid) [0..<n]), leader = leader_id s\<rparr>"
    using quorums.reachable [OF assms] by (simp add: majority_up_def)
  with s show ?thesis by (intro exI conjI) (assumption | simp)+
qed

lemma step_cases:
  assumes "implements s m"
  obtains a s' m' where "serve q s = (Inr a, s')" "spec_step q a m m'" "implements s' m'"
  using serve_refines [OF assms, of q] by (auto simp: refines_def)

text \<open>A shard of three in which only one replica is left.\<close>

lemma minority_shard:
  obtains s m where "implements s m" and "\<not> majority_up m"
proof -
  have three: "(0 :: nat) < 3" and upt: "[0..<3] = [0, 1, 2]" by simp code_simp
  have "\<exists>s m. implements s m \<and> members m = map (replica_name 0) [0..<3] \<and> up m = set (members m)"
    using fresh_shard [OF three, of 0] by blast
  then obtain s m where s: "implements s m" "members m = map (replica_name 0) [0..<3]" "up m = set (members m)"
    by blast
  obtain a s1 m1 where 1: "spec_step (Fail (replica_name 0 1)) a m m1" "implements s1 m1"
    using s(1) by (rule step_cases)
  obtain b s2 m2 where 2: "spec_step (Fail (replica_name 0 2)) b m1 m2" "implements s2 m2"
    using 1(2) by (rule step_cases)
  have "up m = {replica_name 0 0, replica_name 0 1, replica_name 0 2}"
    using s(2,3) upt by auto
  then have "up m2 = {replica_name 0 0}" "members m2 = members m"
    using 1(1) 2(1) s(2) upt by (auto elim!: spec_step_FailE simp: replica_name_inj)
  then show ?thesis using that [OF 2(2)] s(2) by (simp add: majority_up_def quorum_size_def)
qed

lemma serve_simps:
  "serve (Put k v) s = (Inr (Inl r), s') \<longleftrightarrow> shard_put k v s = (Inr r, s')"
  "serve (Erase k) s = (Inr (Inl r), s') \<longleftrightarrow> shard_erase k s = (Inr r, s')"
  "serve (Get k) s = (Inr (Inl r), s') \<longleftrightarrow> shard_get k s = (Inr r, s')"
  by (auto simp: serve_def bindE_def ret_def split: prod.splits sum.splits)



text \<open>
  C6. Safety without a majority: a write or a delete is refused with 503, and the service is exactly
  what it was: same content, same leader. In particular the entry that was appended for the attempt
  is withdrawn everywhere and can never surface later.
\<close>

theorem minority_refuses_writes:
  assumes "implements s m" and "\<not> majority_up m"
  shows "(\<exists>r s'. shard_put k v s = (Inr r, s') \<and> \<not> res_ok r \<and> res_status r = 503 \<and> implements s' m) \<and>
    (\<exists>r s'. shard_erase k s = (Inr r, s') \<and> \<not> res_ok r \<and> res_status r = 503 \<and> implements s' m)"
proof -
  obtain a s' m' where 1: "serve (Put k v) s = (Inr a, s')" "spec_step (Put k v) a m m'" "implements s' m'"
    using assms(1) by (rule step_cases)
  from 1(2) assms(2) obtain r where "a = Inl r" "refusal r" "m' = m"
    by (auto elim!: spec_step_PutE)
  moreover obtain b s'' m'' where 2: "serve (Erase k) s = (Inr b, s'')" "spec_step (Erase k) b m m''" "implements s'' m''"
    using assms(1) by (rule step_cases)
  from 2(2) assms(2) obtain r' where "b = Inl r'" "refusal r'" "m'' = m"
    by (auto elim!: spec_step_EraseE)
  ultimately show ?thesis using 1(1,3) 2(1,3) by (auto simp: serve_simps refusal_def)
qed

theorem minority_refuses_writes_witness:
  "\<exists>s m. implements s m \<and> \<not> majority_up m \<and>
    (\<exists>r s'. shard_put ''k'' ''v'' s = (Inr r, s') \<and> \<not> res_ok r \<and> res_status r = 503 \<and> implements s' m) \<and>
    (\<exists>r s'. shard_erase ''k'' s = (Inr r, s') \<and> \<not> res_ok r \<and> res_status r = 503 \<and> implements s' m)"
proof -
  obtain s m where s: "implements s m" "\<not> majority_up m" by (rule minority_shard)
  with minority_refuses_writes [OF s, of "''k''" "''v''"] show ?thesis by blast
qed

text \<open>
  C4. Durability: stop the process at any moment between two requests and start it again on the
  files that the replicas left behind. As long as terms and log indexes fit into 64 bits, the
  constructor returns, all replicas are up, a leader is elected, and the content is the same.
\<close>

theorem restart_keeps_content:
  assumes "implements s m" and "named s" and "\<forall>r \<in> set (replicas s). fits r"
  shows "\<exists>s' m'. Shard (shard_id s) (length (replicas s)) (disk_of s) (\<lambda>_. []) now mt = Inr s' \<and>
    implements s' m' \<and> content m' = content m \<and> members m' = members m \<and>
    up m' = set (members m) \<and> leader m' \<in> up m'"
proof -
  obtain g where g: "shard_inv s g" "m = service_of s g" using assms(1) by (auto simp: implements_def)
  obtain s' where s': "Shard (shard_id s) (length (replicas s)) (disk_of s) (\<lambda>_. []) now mt = Inr s'"
    "shard_inv s' g" "map replica_id (replicas s') = map replica_id (replicas s)"
    "online_ids s' = set (map replica_id (replicas s))" "leader_id s' \<in> online_ids s'"
    using Shard_reopen [OF g(1) assms(2,3)] by metis
  then show ?thesis
    using g(2) by (intro exI [of _ s'] exI [of _ "service_of s' g"]) (auto simp: implements_def)
qed

lemma fresh_shard_fits:
  "case Shard 0 3 (\<lambda>_. None) (\<lambda>_. []) 0 Metrics of
     Inr s \<Rightarrow> named s \<and> (\<forall>r \<in> set (replicas s). fits r) | Inl _ \<Rightarrow> False"
  by code_simp

theorem restart_keeps_content_witness:
  "\<exists>s m. implements s m \<and> named s \<and> (\<forall>r \<in> set (replicas s). fits r) \<and>
    (\<exists>s' m'. Shard (shard_id s) (length (replicas s)) (disk_of s) (\<lambda>_. []) 7 Metrics = Inr s' \<and>
    implements s' m' \<and> content m' = content m \<and> members m' = members m \<and>
    up m' = set (members m) \<and> leader m' \<in> up m')"
proof -
  obtain s m where s: "Shard 0 3 (\<lambda>_. None) (\<lambda>_. []) 0 Metrics = Inr s" "implements s m"
    using fresh_shard [of 3 0 0 Metrics] by auto
  then have "named s" "\<forall>r \<in> set (replicas s). fits r" using fresh_shard_fits by simp_all
  with restart_keeps_content [OF s(2), of 7 Metrics] s(2) show ?thesis by blast
qed

text \<open>
  C5. An acknowledged write is on disk on a majority: when \<open>put\<close> reports success, the database files
  of at least a quorum of the replicas end with a log row for exactly this key and value.
\<close>

theorem acknowledged_put_on_majority:
  assumes "implements s m" and "shard_put k v s = (Inr r, s')" and "res_ok r"
  shows "quorum_size (length (replicas s')) \<le> card {i. i < length (replicas s') \<and>
    (\<exists>n t. select_last (raft_log (durable (store (replicas s' ! i)))) = Some (n, t, ''PUT'', c_str k, v))}"
proof -
  obtain g where g: "shard_inv s g" using assms(1) by (auto simp: implements_def)
  obtain t where t: "shard_inv s' (g @ [write_row t ''PUT'' k v])"
    using assms(2,3) by (cases rule: command_cases [OF g disjI1 [OF refl], of k v])
      (auto simp: shard_put_def refusal_def)
  let ?g = "g @ [write_row t ''PUT'' k v]"
  have "holders s' ?g \<subseteq> {i. i < length (replicas s') \<and>
    (\<exists>n t. select_last (raft_log (durable (store (replicas s' ! i)))) = Some (n, t, ''PUT'', c_str k, v))}"
  proof
    fix i
    assume "i \<in> holders s' ?g"
    then have i: "i < length (replicas s')" "rep_log (replicas s' ! i) = ?g" by (simp_all add: holders_def)
    have "storage_ok (replicas s' ! i)" by (rule settledD(1) [OF shard_invD [OF t i(1)]])
    then have "durable (store (replicas s' ! i)) = db (store (replicas s' ! i))"
      "raft_log (db (store (replicas s' ! i))) = numbered ?g"
      using i(2) by (simp_all add: storage_ok_def healthy_def durable_def)
    then show "i \<in> {i. i < length (replicas s') \<and>
        (\<exists>n t. select_last (raft_log (durable (store (replicas s' ! i)))) = Some (n, t, ''PUT'', c_str k, v))}"
      using i(1) by (simp add: select_last_numbered write_row_def)
  qed
  then have "card (holders s' ?g) \<le> card {i. i < length (replicas s') \<and>
    (\<exists>n t. select_last (raft_log (durable (store (replicas s' ! i)))) = Some (n, t, ''PUT'', c_str k, v))}"
    by (intro card_mono) auto
  then show ?thesis using t by (simp add: shard_inv_def)
qed

lemma fresh_put_ok:
  "case Shard 0 3 (\<lambda>_. None) (\<lambda>_. []) 0 Metrics of
     Inr s \<Rightarrow> (case shard_put ''k'' ''v'' s of (Inr r, _) \<Rightarrow> res_ok r | _ \<Rightarrow> False) | Inl _ \<Rightarrow> False"
  by code_simp

theorem acknowledged_put_on_majority_witness:
  "\<exists>s m r s'. implements s m \<and> shard_put ''k'' ''v'' s = (Inr r, s') \<and> res_ok r \<and>
    quorum_size (length (replicas s')) \<le> card {i. i < length (replicas s') \<and>
    (\<exists>n t. select_last (raft_log (durable (store (replicas s' ! i)))) = Some (n, t, ''PUT'', c_str ''k'', ''v''))}"
proof -
  obtain s m where s: "Shard 0 3 (\<lambda>_. None) (\<lambda>_. []) 0 Metrics = Inr s" "implements s m"
    using fresh_shard [of 3 0 0 Metrics] by auto
  then obtain r s' where r: "shard_put ''k'' ''v'' s = (Inr r, s')" "res_ok r"
    using fresh_put_ok by (auto split: prod.splits sum.splits)
  with acknowledged_put_on_majority [OF s(2) r] s(2) show ?thesis by blast
qed







end
