(* ===== verification/Vote_Safety.thy ===== *)
theory Vote_Safety
  imports Replica_Props
begin

text \<open>
  Votes of a replica in \<^verbatim>\<open>src/raft.cpp\<close>, under every schedule of errors of its database engine and across
  restarts of the process. \<open>request_vote\<close> changes the term and the vote in memory before it saves them, and
  \<open>persist_state\<close> saves them with one statement each, so an error leaves memory ahead of the file. The
  invariant \<open>vote_inv\<close> says what survives: both the memory and the file know the vote of the newest term in
  which the replica has answered yes, and the file is never ahead of the memory.

  \<open>append_entries\<close> and \<open>install_snapshot\<close> are not among the events of a history: they overwrite the vote
  (lemma \<open>snapshot_forgets_vote\<close>), which is harmless only because \<open>Shard::ensure_leader_locked\<close> never holds
  two elections in one term.
\<close>

subsection \<open>Statements that may fail\<close>

text \<open>A statement either throws, or does its work; in both cases it uses up one entry of the schedule.\<close>

definition with_faults :: "string option list \<Rightarrow> raft_replica \<Rightarrow> raft_replica" where
  "with_faults fs r = r\<lparr>store := (store r)\<lparr>faults := fs\<rparr>\<rparr>"

lemma with_faults_fields [simp]:
  "db (store (with_faults fs r)) = db (store r)" "saved (store (with_faults fs r)) = saved (store r)"
  "current_term (with_faults fs r) = current_term r" "voted_for (with_faults fs r) = voted_for r"
  "commit_index (with_faults fs r) = commit_index r" "last_applied (with_faults fs r) = last_applied r"
  "rep_meta (with_faults fs r) = rep_meta r"
  by (simp_all add: with_faults_def rep_meta_def)

lemma with_faults_same: "with_faults (faults (store r)) r = r"
  by (simp add: with_faults_def)

lemma wp_query_any:
  assumes "\<And>fs. Q (f (db (store r))) (with_faults fs r)" and "\<And>e fs. E e (with_faults fs r)"
  shows "wp (on_store (query f)) Q E r"
proof -
  have "Q (f (db (store r))) r" using assms(1) [of "faults (store r)"] by (simp add: with_faults_same)
  then show ?thesis
    using assms by (auto simp: with_faults_def wp_on_store query_def wp_engine_call split: list.splits option.splits)
qed

lemma wp_change_any:
  assumes "\<And>fs. Q () ((with_faults fs r)\<lparr>store := (store (with_faults fs r))\<lparr>db := f (db (store r))\<rparr>\<rparr>)"
    and "\<And>e fs. E e (with_faults fs r)"
  shows "wp (on_store (change f)) Q E r"
proof -
  have "Q () (r\<lparr>store := (store r)\<lparr>db := f (db (store r))\<rparr>\<rparr>)"
    using assms(1) [of "faults (store r)"] by (simp add: with_faults_same)
  then show ?thesis
    using assms by (auto simp: with_faults_def wp_on_store change_def wp_engine_call split: list.splits option.splits)
qed

subsection \<open>The invariant of voting\<close>

text \<open>
  \<open>granted\<close> is the set of votes that were given so far, as term and candidate. In memory and on disk
  the replica remembers the vote of the term it is in; the term on disk is never ahead.
\<close>

definition remembers :: "(int \<times> string) set \<Rightarrow> int \<Rightarrow> string \<Rightarrow> bool" where
  "remembers granted t v \<longleftrightarrow> (\<forall>(t', c) \<in> granted. t' \<le> t \<and> (t' = t \<longrightarrow> v = c))"

definition disk_remembers :: "(int \<times> string) set \<Rightarrow> raft_replica \<Rightarrow> bool" where
  "disk_remembers granted r \<longleftrightarrow>
     (case rep_meta r ''current_term'' of
        None \<Rightarrow> granted = {}
      | Some s \<Rightarrow> (\<exists>t v. s = to_string t \<and> in_int64 t \<and> t \<le> current_term r \<and>
          (granted \<noteq> {} \<longrightarrow> rep_meta r ''voted_for'' = Some v) \<and> remembers granted t v))"

definition vote_inv :: "(int \<times> string) set \<Rightarrow> raft_replica \<Rightarrow> bool" where
  "vote_inv granted r \<longleftrightarrow> saved (store r) = None \<and> table_ok (meta_table (db (store r))) \<and>
     in_int64 (current_term r) \<and> c_str (voted_for r) = voted_for r \<and>
     (\<forall>v. rep_meta r ''voted_for'' = Some v \<longrightarrow> c_str v = v) \<and>
     single_valued granted \<and> (\<forall>(t, c) \<in> granted. c \<noteq> []) \<and> remembers granted (current_term r) (voted_for r) \<and> disk_remembers granted r"

lemma vote_inv_frame:
  assumes "saved (store r') = saved (store r)" "meta_table (db (store r')) = meta_table (db (store r))"
    and "current_term r' = current_term r" "voted_for r' = voted_for r"
  shows "vote_inv granted r' = vote_inv granted r"
proof -
  have "rep_meta r' = rep_meta r" using assms(2) by (simp add: rep_meta_def)
  then show ?thesis using assms by (simp add: vote_inv_def disk_remembers_def cong: option.case_cong)
qed

lemma vote_inv_faults [simp]:
  "vote_inv granted (with_faults fs r) = vote_inv granted r"
  by (rule vote_inv_frame) simp_all

text \<open>\<open>persist_state\<close> keeps the invariant wherever it is interrupted, and at its end the vote is on disk.\<close>

definition on_disk :: "raft_replica \<Rightarrow> bool" where
  "on_disk r \<longleftrightarrow> rep_meta r ''current_term'' = Some (to_string (current_term r)) \<and>
     rep_meta r ''voted_for'' = Some (voted_for r)"

definition put_meta :: "string \<Rightarrow> string \<Rightarrow> raft_replica \<Rightarrow> raft_replica" where
  "put_meta key val r = r\<lparr>store := (store r)\<lparr>db := (db (store r))
     \<lparr>meta_table := upsert key val (meta_table (db (store r)))\<rparr>\<rparr>\<rparr>"

lemma rep_meta_put [simp]:
  "table_ok (meta_table (db (store r))) \<Longrightarrow> rep_meta (put_meta key val r) k = (if k = key then Some val else rep_meta r k)"
  by (simp add: rep_meta_def put_meta_def tbl.lookup_update)

lemma put_meta_fields [simp]:
  "current_term (put_meta key val r) = current_term r" "voted_for (put_meta key val r) = voted_for r"
  "commit_index (put_meta key val r) = commit_index r" "last_applied (put_meta key val r) = last_applied r"
  "saved (store (put_meta key val r)) = saved (store r)"
  "table_ok (meta_table (db (store r))) \<Longrightarrow> table_ok (meta_table (db (store (put_meta key val r))))"
  by (simp_all add: put_meta_def tbl.ok_update)

lemma wp_set_meta_any:
  assumes "c_str key = key" and "c_str val = val"
    and "\<And>fs. Q () (put_meta key val (with_faults fs r))" and "\<And>e fs. E e (with_faults fs r)"
  shows "wp (on_store (set_meta key val)) Q E r"
  using assms unfolding set_meta_def by (intro wp_change_any) (simp_all add: put_meta_def)

lemma vote_invD:
  assumes "vote_inv granted r"
  shows "table_ok (meta_table (db (store r)))" "c_str (voted_for r) = voted_for r" "in_int64 (current_term r)"
    "saved (store r) = None"
  using assms by (simp_all add: vote_inv_def)

lemma remembers_disk:
  assumes "vote_inv granted r" and "(t, c) \<in> granted"
  shows "t \<le> current_term r" "t = current_term r \<Longrightarrow> voted_for r = c"
    "t = current_term r \<Longrightarrow> rep_meta r ''voted_for'' = Some c"
proof -
  show "t \<le> current_term r" "t = current_term r \<Longrightarrow> voted_for r = c"
    using assms by (auto simp: vote_inv_def remembers_def)
  obtain dt v where "dt \<le> current_term r" "rep_meta r ''voted_for'' = Some v" "remembers granted dt v"
    using assms by (fastforce simp: vote_inv_def disk_remembers_def split: option.splits)
  then show "rep_meta r ''voted_for'' = Some c" if "t = current_term r"
    using that assms(2) by (fastforce simp: remembers_def)
qed

lemma vote_inv_put_term:
  assumes "vote_inv granted r"
  shows "vote_inv granted (put_meta ''current_term'' (to_string (current_term r)) r)"
proof -
  have ok: "table_ok (meta_table (db (store r)))" using assms by (simp add: vote_inv_def)
  have "\<exists>v. (granted \<noteq> {} \<longrightarrow> rep_meta r ''voted_for'' = Some v) \<and> remembers granted (current_term r) v"
  proof (cases "granted = {}")
    case False
    then obtain v where v: "rep_meta r ''voted_for'' = Some v"
      using assms by (fastforce simp: vote_inv_def disk_remembers_def split: option.splits)
    then have "remembers granted (current_term r) v"
      using remembers_disk [OF assms] by (fastforce simp: remembers_def)
    with v show ?thesis by blast
  qed (simp add: remembers_def)
  then show ?thesis using assms ok by (auto simp: vote_inv_def disk_remembers_def)
qed

lemma vote_inv_put_vote:
  assumes "vote_inv granted r" and "rep_meta r ''current_term'' = Some (to_string (current_term r))"
  shows "vote_inv granted (put_meta ''voted_for'' (voted_for r) r)"
  using assms by (auto simp: vote_inv_def disk_remembers_def)

lemma vote_inv_put_other:
  assumes "vote_inv granted r" and "key \<notin> {''current_term'', ''voted_for''}"
  shows "vote_inv granted (put_meta key val r)"
  using assms by (auto simp: vote_inv_def disk_remembers_def cong: option.case_cong)

definition saved_vote :: "(int \<times> string) set \<Rightarrow> int \<Rightarrow> string \<Rightarrow> raft_replica \<Rightarrow> bool" where
  "saved_vote granted t v r \<longleftrightarrow> vote_inv granted r \<and> on_disk r \<and> current_term r = t \<and> voted_for r = v"

lemma wp_set_meta_other:
  assumes "saved_vote granted t v r" and "key \<notin> {''current_term'', ''voted_for''}" and "c_str key = key"
    and "\<And>r'. saved_vote granted t v r' \<Longrightarrow> Q () r'" and "\<And>e r'. vote_inv granted r' \<Longrightarrow> E e r'"
  shows "wp (on_store (set_meta key (to_string i))) Q E r"
proof (rule wp_set_meta_any)
  fix fs
  have ok: "vote_inv granted (with_faults fs r)" "table_ok (meta_table (db (store r)))"
    using assms(1) by (auto simp: saved_vote_def vote_invD)
  show "Q () (put_meta key (to_string i) (with_faults fs r))"
    using assms(1,2) vote_inv_put_other [OF ok(1) assms(2)] ok(2)
    by (intro assms(4)) (auto simp: saved_vote_def on_disk_def)
  show "E e (with_faults fs r)" for e using ok(1) by (rule assms(5))
qed (use assms(3) in simp_all)

lemma wp_persist_any:
  assumes "vote_inv granted r"
  shows "wp persist_state (\<lambda>_. saved_vote granted (current_term r) (voted_for r)) (\<lambda>_. vote_inv granted) r"
proof -
  have inv: "table_ok (meta_table (db (store r)))" "c_str (voted_for r) = voted_for r"
    using vote_invD [OF assms] by simp_all
  have rest: "wp (on_store (set_meta ''commit_index'' (to_string i))) (\<lambda>_. wp (on_store (set_meta ''last_applied'' (to_string j)))
      (\<lambda>_. saved_vote granted t v) (\<lambda>_. vote_inv granted)) (\<lambda>_. vote_inv granted) s"
    if "saved_vote granted t v s" for s t v i j
    by (rule wp_set_meta_other [OF that]) (auto intro: wp_set_meta_other)
  have vote: "wp (on_store (set_meta ''voted_for'' (voted_for s))) (\<lambda>_. wp (on_store (set_meta ''commit_index'' (to_string i)))
      (\<lambda>_. wp (on_store (set_meta ''last_applied'' (to_string j)))
      (\<lambda>_. saved_vote granted (current_term s) (voted_for s)) (\<lambda>_. vote_inv granted)) (\<lambda>_. vote_inv granted)) (\<lambda>_. vote_inv granted) s"
    if s: "vote_inv granted s" "rep_meta s ''current_term'' = Some (to_string (current_term s))" for s i j
  proof (rule wp_set_meta_any)
    fix fs
    have ok: "table_ok (meta_table (db (store s)))" using vote_invD [OF s(1)] by simp
    have "saved_vote granted (current_term s) (voted_for s) (put_meta ''voted_for'' (voted_for s) (with_faults fs s))"
      using vote_inv_put_vote [of granted "with_faults fs s"] s ok by (simp add: saved_vote_def on_disk_def)
    then show "wp (on_store (set_meta ''commit_index'' (to_string i))) (\<lambda>_. wp (on_store (set_meta ''last_applied'' (to_string j)))
      (\<lambda>_. saved_vote granted (current_term s) (voted_for s)) (\<lambda>_. vote_inv granted)) (\<lambda>_. vote_inv granted)
      (put_meta ''voted_for'' (voted_for s) (with_faults fs s))" by (rule rest)
  qed (use s in \<open>simp_all add: vote_invD\<close>)
  show ?thesis
    unfolding persist_state_def wp_bindE wp_getE id_def
  proof (rule wp_set_meta_any)
    fix fs
    let ?s = "put_meta ''current_term'' (to_string (current_term r)) (with_faults fs r)"
    have "vote_inv granted ?s" "rep_meta ?s ''current_term'' = Some (to_string (current_term r))"
      using vote_inv_put_term [of granted "with_faults fs r"] assms inv by simp_all
    then show "wp (on_store (set_meta ''voted_for'' (voted_for r))) (\<lambda>_. wp (on_store (set_meta ''commit_index'' (to_string (commit_index r))))
      (\<lambda>_. wp (on_store (set_meta ''last_applied'' (to_string (last_applied r))))
      (\<lambda>_. saved_vote granted (current_term r) (voted_for r)) (\<lambda>_. vote_inv granted)) (\<lambda>_. vote_inv granted)) (\<lambda>_. vote_inv granted) ?s"
      using vote [of ?s "commit_index r" "last_applied r"] by simp
  qed (use assms in simp_all)
qed

subsection \<open>Voting\<close>

lemma vote_inv_new_term:
  assumes "vote_inv granted r" and "current_term r < t" and "in_int64 t"
  shows "vote_inv granted (r\<lparr>current_term := t, voted_for := [], replica_role := Follower\<rparr>)"
proof -
  let ?r = "r\<lparr>current_term := t, voted_for := [], replica_role := Follower\<rparr>"
  have "rep_meta ?r = rep_meta r" by (simp add: rep_meta_def)
  moreover have "remembers granted t []"
    using assms(1,2) by (fastforce simp: vote_inv_def remembers_def)
  moreover have "disk_remembers granted ?r"
    using assms(1,2) calculation(1)
    by (fastforce simp: vote_inv_def disk_remembers_def split: option.splits)
  ultimately show ?thesis using assms(1,3) by (simp add: vote_inv_def)
qed

lemma vote_inv_vote:
  assumes "vote_inv granted r" and "voted_for r = [] \<or> voted_for r = c" and "c_str c = c"
  shows "vote_inv granted (r\<lparr>voted_for := c\<rparr>)"
proof -
  let ?r = "r\<lparr>voted_for := c\<rparr>"
  have "rep_meta ?r = rep_meta r" by (simp add: rep_meta_def)
  then have "disk_remembers granted ?r"
    using assms(1) by (simp add: vote_inv_def disk_remembers_def cong: option.case_cong)
  moreover have "remembers granted (current_term r) c"
    using assms(1,2) by (fastforce simp: vote_inv_def remembers_def)
  ultimately show ?thesis using assms(1,3) by (simp add: vote_inv_def)
qed

lemma vote_inv_grant:
  assumes "saved_vote granted t c r" and "c \<noteq> []"
  shows "vote_inv (insert (t, c) granted) r"
proof -
  have r: "vote_inv granted r" "rep_meta r ''current_term'' = Some (to_string t)" "rep_meta r ''voted_for'' = Some c"
    "current_term r = t" "voted_for r = c"
    using assms(1) by (auto simp: saved_vote_def on_disk_def)
  have "remembers (insert (t, c) granted) t c"
    using remembers_disk [OF r(1)] r(4,5) by (auto simp: remembers_def)
  moreover have "single_valued (insert (t, c) granted)"
    using remembers_disk [OF r(1)] r(1,4,5) by (fastforce simp: vote_inv_def single_valued_def)
  ultimately show ?thesis
    using r assms(2) by (auto simp: vote_inv_def disk_remembers_def)
qed

lemma wp_log_queries_any:
  assumes "\<And>i fs. Q i (with_faults fs r)" and "\<And>e fs. E e (with_faults fs r)"
  shows "wp last_log_term Q E r" and "wp last_log_index Q E r"
  unfolding last_log_term_def last_log_index_def store_last_log_term_def store_last_log_index_def
  using assms by (auto intro!: wp_query_any)

lemma wp_request_vote_any:
  assumes r: "vote_inv granted r" and t: "in_int64 t" and c: "c \<noteq> []" "c_str c = c"
  shows "wp (request_vote t c li lt) (\<lambda>b. vote_inv (if b then insert (t, c) granted else granted))
    (\<lambda>_. vote_inv granted) r" (is "wp _ ?Q ?E r")
proof -
  have persist: "wp (bindE persist_state (\<lambda>_. ret b)) ?Q ?E s"
    if s: "vote_inv granted s" "b \<Longrightarrow> current_term s = t \<and> voted_for s = c" for s b
  proof (rule wp_seq [OF wp_persist_any [OF s(1)]])
    fix x s' assume "saved_vote granted (current_term s) (voted_for s) s'"
    then show "wp (ret b) ?Q ?E s'"
      using s(2) vote_inv_grant [of granted t c s'] c(1) by (auto simp: saved_vote_def)
  qed
  have decide: "wp (bindE last_log_term (\<lambda>x. bindE last_log_index (\<lambda>y. bindE (getE voted_for) (\<lambda>v.
      if p x y \<and> (v = [] \<or> v = c)
      then bindE (modifyE (\<lambda>r. r\<lparr>voted_for := c\<rparr>)) (\<lambda>_. bindE persist_state (\<lambda>_. ret True))
      else bindE persist_state (\<lambda>_. ret False))))) ?Q ?E s"
    if s: "vote_inv granted s" "current_term s = t" for s p
  proof -
    let ?P = "\<lambda>_ s'. vote_inv granted s' \<and> current_term s' = t"
    have look: "wp last_log_term ?P ?E s'" "wp last_log_index ?P ?E s'" if "?P () s'" for s'
      using that by (auto intro!: wp_log_queries_any)
    show ?thesis
    proof (rule wp_seq [OF look(1)], use s in simp, rule wp_seq [OF look(2)], simp)
      fix x y s1 s2
      assume "?P () s2"
      then show "wp (bindE (getE voted_for) (\<lambda>v. if p x y \<and> (v = [] \<or> v = c)
        then bindE (modifyE (\<lambda>r. r\<lparr>voted_for := c\<rparr>)) (\<lambda>_. bindE persist_state (\<lambda>_. ret True))
        else bindE persist_state (\<lambda>_. ret False))) ?Q ?E s2"
        using persist [of "s2\<lparr>voted_for := c\<rparr>" True] persist [of s2 False] vote_inv_vote [of granted s2 c] c(2)
        by (simp del: wp_bindE add: wp_bindE [of "getE _"] wp_bindE [of "modifyE _"])
    qed
  qed
  show ?thesis
  proof (cases "\<not> online r \<or> t < current_term r")
    case True
    then show ?thesis using r by (auto simp: request_vote_def)
  next
    case False
    then show ?thesis
      using decide [of r] decide [of "r\<lparr>current_term := t, voted_for := [], replica_role := Follower\<rparr>"]
        vote_inv_new_term [OF r _ t] r
      by (cases "current_term r < t")
        (simp_all del: wp_bindE add: request_vote_def Let_def wp_bindE [of "getE _"] wp_bindE [of "modifyE _"] wp_bindE [of "ret _"])
  qed
qed

subsection \<open>Operations that leave the vote alone\<close>

definition keeps_votes :: "(raft_replica, 'a) op \<Rightarrow> bool" where
  "keeps_votes m \<longleftrightarrow> (\<forall>granted r. vote_inv granted r \<longrightarrow> wp m (\<lambda>_. vote_inv granted) (\<lambda>_. vote_inv granted) r)"

lemma keeps_votesD: "keeps_votes m \<Longrightarrow> vote_inv granted r \<Longrightarrow> wp m (\<lambda>_. vote_inv granted) (\<lambda>_. vote_inv granted) r"
  by (simp add: keeps_votes_def)

lemma keeps_votes_basic [intro, simp]:
  "keeps_votes (ret x)" "keeps_votes (throwE e)" "keeps_votes (getE f)" "keeps_votes (liftE y)"
  by (auto simp: keeps_votes_def split: sum.splits)

lemma keeps_votes_bind [intro!]:
  assumes "keeps_votes m" and "\<And>x. keeps_votes (f x)"
  shows "keeps_votes (bindE m f)"
  unfolding keeps_votes_def
proof (intro allI impI)
  fix granted r assume "vote_inv granted r"
  then show "wp (bindE m f) (\<lambda>_. vote_inv granted) (\<lambda>_. vote_inv granted) r"
    by (intro wp_seq [OF keeps_votesD [OF assms(1)]]) (auto intro: keeps_votesD [OF assms(2)])
qed

lemma keeps_votes_if [intro!]: "keeps_votes m \<Longrightarrow> keeps_votes n \<Longrightarrow> keeps_votes (if b then m else n)"
  by simp

lemma keeps_votes_option [intro!]:
  "keeps_votes m \<Longrightarrow> (\<And>x. keeps_votes (f x)) \<Longrightarrow> keeps_votes (case ov of None \<Rightarrow> m | Some x \<Rightarrow> f x)"
  by (simp split: option.splits)

lemma keeps_votes_fields [intro, simp]:
  "keeps_votes (modifyE (\<lambda>r. r\<lparr>last_applied := i\<rparr>))"
  "keeps_votes (modifyE (\<lambda>r. r\<lparr>commit_index := f r\<rparr>))"
  "keeps_votes (modifyE (\<lambda>r. r\<lparr>online := b\<rparr>))"
  "keeps_votes (modifyE (\<lambda>r. r\<lparr>replica_role := x\<rparr>))"
  by (auto simp: keeps_votes_def elim: vote_inv_frame [THEN iffD2, rotated 4])

lemma keeps_votes_query [intro, simp]: "keeps_votes (on_store (query f))"
  by (auto simp: keeps_votes_def intro!: wp_query_any)

lemma keeps_votes_change [intro!]:
  assumes "\<And>t. meta_table (f t) = meta_table t"
  shows "keeps_votes (on_store (change f))"
proof -
  have "vote_inv granted (with_faults fs r\<lparr>store := (store (with_faults fs r))\<lparr>db := f (db (store r))\<rparr>\<rparr>)"
    if "vote_inv granted r" for granted r fs
    using that assms by (subst vote_inv_frame [of _ "with_faults fs r"]) simp_all
  then show ?thesis by (auto simp: keeps_votes_def intro!: wp_change_any)
qed

lemma keeps_votes_persist [intro, simp]: "keeps_votes persist_state"
  unfolding keeps_votes_def
  by (auto intro!: wp_mono [OF wp_persist_any] simp: saved_vote_def)

lemma keeps_votes_store [intro, simp]:
  "keeps_votes (on_store (log_at i))" "keeps_votes (on_store (append_log e))"
  "keeps_votes (on_store (truncate_log_from i))" "keeps_votes (on_store (store_erase k))"
  "keeps_votes (on_store (get_meta k))" "keeps_votes last_log_index"
  by (auto simp: log_at_def append_log_def truncate_log_from_def store_erase_def get_meta_def last_log_index_def
      store_last_log_index_def)

lemma keeps_votes_put [intro, simp]: "keeps_votes (on_store (store_put k v))"
proof -
  have "on_store (store_put k v) = (bindE (getE (\<lambda>r. epoch (store r))) (\<lambda>now.
      on_store (change (\<lambda>t. t\<lparr>kv_table := upsert (c_str k) (v, now) (kv_table t)\<rparr>))))"
    by (rule ext) (simp add: store_put_def on_store_def zoom_def bindE_def getE_def)
  then show ?thesis by auto
qed

lemma keeps_votes_apply_entry [intro, simp]: "keeps_votes (apply_entry e)"
  by (auto simp: apply_entry_def)

lemma keeps_votes_apply_until [intro, simp]: "keeps_votes (apply_until i target)"
proof (induction i target rule: apply_until.induct)
  case (1 i target)
  then show ?case by (subst apply_until.simps) (cases "i \<le> target"; auto)
qed

lemma keeps_votes_apply_present [intro, simp]: "keeps_votes (apply_present i target)"
proof (induction i target rule: apply_present.induct)
  case (1 i target)
  then show ?case by (subst apply_present.simps) (cases "i \<le> target"; auto)
qed

lemma keeps_votes_operations [intro, simp]:
  "keeps_votes (append_local command key val)" "keeps_votes (commit_to i)" "keeps_votes discard_uncommitted"
  "keeps_votes (set_online b)" "keeps_votes (set_role x)"
  by (auto simp: append_local_def commit_to_def discard_uncommitted_def set_online_def set_role_def Let_def)

subsection \<open>Restarts\<close>

text \<open>What the file must hold for the votes to survive a restart.\<close>

definition file_remembers :: "(int \<times> string) set \<Rightarrow> (string \<rightharpoonup> string) \<Rightarrow> bool" where
  "file_remembers granted meta \<longleftrightarrow> (\<forall>v. meta ''voted_for'' = Some v \<longrightarrow> c_str v = v) \<and> single_valued granted \<and> (\<forall>(t, c) \<in> granted. c \<noteq> []) \<and>
     (case meta ''current_term'' of
        None \<Rightarrow> granted = {}
      | Some s \<Rightarrow> (\<exists>t v. s = to_string t \<and> in_int64 t \<and> (granted \<noteq> {} \<longrightarrow> meta ''voted_for'' = Some v) \<and> remembers granted t v))"

lemma vote_inv_file: "vote_inv granted r \<Longrightarrow> file_remembers granted (rep_meta r)"
  by (fastforce simp: vote_inv_def disk_remembers_def file_remembers_def split: option.splits)

lemma file_vote_inv:
  assumes "file_remembers granted (rep_meta r)" and "saved (store r) = None" and "table_ok (meta_table (db (store r)))"
    and "case rep_meta r ''current_term'' of None \<Rightarrow> current_term r = 0 | Some s \<Rightarrow> stoll s = Inr (current_term r)"
    and "case rep_meta r ''voted_for'' of None \<Rightarrow> voted_for r = [] | Some s \<Rightarrow> voted_for r = s"
  shows "vote_inv granted r"
proof -
  have vote: "c_str (voted_for r) = voted_for r"
    using assms(1,5) by (auto simp: file_remembers_def split: option.splits)
  show ?thesis
  proof (cases "rep_meta r ''current_term''")
    case None
    then show ?thesis
      using assms vote by (auto simp: file_remembers_def vote_inv_def disk_remembers_def remembers_def in_int64_def)
  next
    case (Some s)
    then obtain t v where "s = to_string t" "in_int64 t" "granted \<noteq> {} \<longrightarrow> rep_meta r ''voted_for'' = Some v"
      "remembers granted t v"
      using assms(1) by (auto simp: file_remembers_def)
    moreover from this have "current_term r = t" using Some assms(4) by (simp add: ll.decode_encode)
    moreover have "remembers granted t (voted_for r)"
      using calculation assms(5) by (cases "granted = {}") (auto simp: remembers_def)
    ultimately show ?thesis
      using assms(1-3) Some vote by (auto simp: file_remembers_def vote_inv_def disk_remembers_def)
  qed
qed

text \<open>What \<open>load_state\<close> has read: the replica is still on the file it was opened on.\<close>

definition loaded :: "(string \<times> string) list \<Rightarrow> int \<Rightarrow> string \<Rightarrow> raft_replica \<Rightarrow> bool" where
  "loaded meta t v r \<longleftrightarrow> saved (store r) = None \<and> meta_table (db (store r)) = meta \<and> current_term r = t \<and> voted_for r = v"

lemma wp_get_meta_any:
  assumes "loaded meta t v r" and "c_str key = key"
  shows "wp (on_store (get_meta key)) (\<lambda>x s. x = rep_meta r key \<and> loaded meta t v s) (\<lambda>_ _. True) r"
  using assms unfolding get_meta_def by (intro wp_query_any) (simp_all add: loaded_def rep_meta_def)

lemma load_state_remembers:
  assumes r: "loaded meta 0 [] r" and ok: "table_ok meta" and fr: "file_remembers granted (rep_meta r)"
  shows "wp load_state (\<lambda>_. vote_inv granted) (\<lambda>_ _. True) r"
proof -
  have meta: "rep_meta s = rep_meta r" if "loaded meta t v s" for t v s
    using r that by (simp add: loaded_def rep_meta_def)
  let ?t = "\<lambda>t. case rep_meta r ''current_term'' of None \<Rightarrow> t = 0 | Some s \<Rightarrow> stoll s = Inr t"
  have 1: "wp (load_int ''current_term'' (\<lambda>i r. r\<lparr>current_term := i\<rparr>)) (\<lambda>_ s. \<exists>t. ?t t \<and> loaded meta t [] s) (\<lambda>_ _. True) r"
    unfolding load_int_def
    by (rule wp_seq [OF wp_get_meta_any [OF r]])
      (auto simp: loaded_def split: option.splits sum.splits)
  have 2: "wp (case x of None \<Rightarrow> ret () | Some s \<Rightarrow> modifyE (\<lambda>r. r\<lparr>voted_for := s\<rparr>)) (\<lambda>_. vote_inv granted) (\<lambda>_ _. True) s"
    if "x = rep_meta r ''voted_for''" "?t t" "loaded meta t [] s" for x t s
  proof -
    let ?s = "case x of None \<Rightarrow> s | Some v \<Rightarrow> s\<lparr>voted_for := v\<rparr>"
    have "loaded meta t (case x of None \<Rightarrow> [] | Some v \<Rightarrow> v) ?s"
      using that(3) by (auto simp: loaded_def split: option.splits)
    then have "vote_inv granted ?s"
      using that(1,2) fr ok meta [of t _ ?s]
      by (intro file_vote_inv) (auto simp: loaded_def split: option.splits)
    then show ?thesis by (simp split: option.splits)
  qed
  have keep: "keeps_votes (bindE (load_int ''commit_index'' (\<lambda>i r. r\<lparr>commit_index := i\<rparr>)) (\<lambda>_.
     bindE (load_int ''last_applied'' (\<lambda>i r. r\<lparr>last_applied := i\<rparr>)) (\<lambda>_.
     bindE (getE id) (\<lambda>r.
     if last_applied r < commit_index r
     then bindE (apply_present (last_applied r + 1) (commit_index r)) (\<lambda>_. persist_state)
     else ret ()))))" (is "keeps_votes ?rest")
    by (auto simp: load_int_def)
  show ?thesis
    unfolding load_state_def
  proof (rule wp_seq [OF 1], elim exE conjE)
    fix s t assume t: "?t t" "loaded meta t [] s"
    show "wp (bindE (on_store (get_meta ''voted_for'')) (\<lambda>v.
      bindE (case v of None \<Rightarrow> ret () | Some s \<Rightarrow> modifyE (\<lambda>r. r\<lparr>voted_for := s\<rparr>)) (\<lambda>_. ?rest)))
      (\<lambda>_. vote_inv granted) (\<lambda>_ _. True) s"
    proof (rule wp_seq [OF wp_get_meta_any [OF t(2)]], simp, rule wp_seq [OF 2 [OF _ t(1)]])
      fix x s' assume x: "x = rep_meta s ''voted_for'' \<and> loaded meta t [] s'"
      then show "x = rep_meta r ''voted_for''" "loaded meta t [] s'" using meta [OF t(2)] by simp_all
    next
      fix s' assume "vote_inv granted s'"
      then show "wp ?rest (\<lambda>_. vote_inv granted) (\<lambda>_ _. True) s'"
        by (intro wp_mono [OF keeps_votesD [OF keep]]) auto
    qed
  qed
qed

lemma SqliteStore_content:
  assumes "SqliteStore file fs now = Inr st"
  shows "db st = (case file of None \<Rightarrow> no_rows | Some t \<Rightarrow> t) \<and> saved st = None"
proof -
  let ?s0 = "\<lparr>db = (case file of None \<Rightarrow> no_rows | Some t \<Rightarrow> t), saved = None, faults = fs, epoch = now\<rparr>"
  let ?P = "\<lambda>_ s. db s = db ?s0 \<and> saved s = None"
  have call: "wp engine_call ?P (\<lambda>_ _. True) s" if "?P () s" for s
    using that by (auto simp: wp_engine_call split: list.splits option.splits)
  have "wp initialize ?P (\<lambda>_ _. True) s" if "?P () s" for s
    unfolding initialize_def by (rule wp_forE [where I = ?P]) (use call that in auto)
  then have "wp (bindE engine_call (\<lambda>_. bindE engine_call (\<lambda>_. initialize))) ?P (\<lambda>_ _. True) ?s0"
    by (intro wp_seq [OF call] wp_seq [OF call]) auto
  then show ?thesis using assms by (auto simp: SqliteStore_def wp_def Let_def split: prod.splits sum.splits)
qed

lemma open_remembers:
  assumes "RaftReplica rid sid file fs now = Inr r"
    and "table_ok (meta_table tbl)" and "file_remembers granted (\<lambda>k. select_key k (meta_table tbl))"
    and "tbl = (case file of None \<Rightarrow> no_rows | Some t \<Rightarrow> t)"
  shows "vote_inv granted r"
proof -
  obtain st where st: "SqliteStore file fs now = Inr st"
    using assms(1) by (auto simp: RaftReplica_def split: sum.splits)
  let ?r = "\<lparr>replica_id = rid, replica_shard_id = sid, store = st, replica_role = Follower, online = True,
    current_term = 0, voted_for = [], commit_index = 0, last_applied = 0\<rparr>"
  have "db st = tbl" "saved st = None" using SqliteStore_content [OF st] assms(4) by simp_all
  then have "loaded (meta_table tbl) 0 [] ?r" "file_remembers granted (rep_meta ?r)"
    using assms(3) by (simp_all add: loaded_def rep_meta_def)
  then have "wp load_state (\<lambda>_. vote_inv granted) (\<lambda>_ _. True) ?r"
    using assms(2) by (intro load_state_remembers) auto
  then show ?thesis
    using assms(1) st by (auto simp: RaftReplica_def wp_def split: prod.splits sum.splits)
qed

subsection \<open>Histories of a replica\<close>

text \<open>
  What may happen to a replica while no leader of its shard sends to it: requests for votes, the
  operations of a leader on itself, changes of role and availability, and stops of the process, after
  which the replica is opened on what its file holds. A restart carries the errors that the engine will
  report from then on; one that fails ends the history.
\<close>

datatype replica_event =
    Ask_vote int string int int
  | Local string string string
  | Commit int
  | Discard
  | Online bool
  | Role role
  | Restart "string option list"

definition restart :: "string option list \<Rightarrow> raft_replica \<Rightarrow> exn + raft_replica" where
  "restart fs r = RaftReplica (replica_id r) (replica_shard_id r) (Some (durable (store r))) fs (epoch (store r))"

text \<open>The votes that are granted in a history, in order; an operation that throws changes what it changed.\<close>

fun votes_granted :: "replica_event list \<Rightarrow> raft_replica \<Rightarrow> (int \<times> string) list" where
  "votes_granted [] r = []"
| "votes_granted (Ask_vote t c li lt # es) r =
    (case request_vote t c li lt r of
       (Inr True, r') \<Rightarrow> (t, c) # votes_granted es r'
     | (_, r') \<Rightarrow> votes_granted es r')"
| "votes_granted (Local command key val # es) r = votes_granted es (snd (append_local command key val r))"
| "votes_granted (Commit i # es) r = votes_granted es (snd (commit_to i r))"
| "votes_granted (Discard # es) r = votes_granted es (snd (discard_uncommitted r))"
| "votes_granted (Online b # es) r = votes_granted es (snd (set_online b r))"
| "votes_granted (Role x # es) r = votes_granted es (snd (set_role x r))"
| "votes_granted (Restart fs # es) r = (case restart fs r of Inl _ \<Rightarrow> [] | Inr r' \<Rightarrow> votes_granted es r')"

fun proper_event :: "replica_event \<Rightarrow> bool" where
  "proper_event (Ask_vote t c li lt) \<longleftrightarrow> in_int64 t \<and> c \<noteq> [] \<and> CHR 0x00 \<notin> set c"
| "proper_event _ \<longleftrightarrow> True"

lemma keeps_votes_snd: "keeps_votes m \<Longrightarrow> vote_inv granted r \<Longrightarrow> vote_inv granted (snd (m r))"
  using keeps_votesD [of m granted r] by (auto simp: wp_def split: prod.splits sum.splits)

lemma restart_remembers:
  assumes "vote_inv granted r" and "restart fs r = Inr r'"
  shows "vote_inv granted r'"
proof (rule open_remembers [OF assms(2) [unfolded restart_def], where tbl = "db (store r)"])
  show "file_remembers granted (\<lambda>k. select_key k (meta_table (db (store r))))"
    using vote_inv_file [OF assms(1)] by (simp add: rep_meta_def [abs_def])
qed (use vote_invD [OF assms(1)] in \<open>simp_all add: durable_def\<close>)

lemma votes_consistent:
  assumes "vote_inv granted r" and "list_all proper_event es"
  shows "\<exists>r'. vote_inv (granted \<union> set (votes_granted es r)) r'"
  using assms
proof (induction es arbitrary: granted r)
  case Nil
  then show ?case by auto
next
  case (Cons e es)
  then have es: "list_all proper_event es" by simp
  show ?case
  proof (cases e)
    case (Ask_vote t c li lt)
    obtain x r' where run: "request_vote t c li lt r = (x, r')" by force
    have "wp (request_vote t c li lt) (\<lambda>b. vote_inv (if b then insert (t, c) granted else granted)) (\<lambda>_. vote_inv granted) r"
      using Cons.prems Ask_vote by (intro wp_request_vote_any) (auto intro: c_str_id)
    with run have inv: "vote_inv (if x = Inr True then insert (t, c) granted else granted) r'"
      by (auto simp: wp_def split: sum.splits if_splits)
    then show ?thesis
      using Cons.IH [OF inv es] run Ask_vote by (auto split: sum.splits bool.splits)
  next
    case (Restart fs)
    then show ?thesis
      using Cons.IH [OF restart_remembers [OF Cons.prems(1)] es] Cons.prems(1) by (cases "restart fs r") auto
  qed (use Cons.IH [OF keeps_votes_snd [OF _ Cons.prems(1)] es] in auto)
qed


text \<open>
  A history in which the statement that saves a vote fails and the process is restarted: the
  replica has the new term on disk, with the candidate it voted for in the term before.
\<close>

definition election_history :: "replica_event list" where
  "election_history = [Ask_vote 1 ''n2'' 0 0, Ask_vote 1 ''n3'' 0 0,
     Restart (replicate 21 None @ [Some ''disk I/O error'']), Ask_vote 1 ''n3'' 0 0, Ask_vote 2 ''n3'' 0 0,
     Restart [], Ask_vote 2 ''n2'' 0 0, Ask_vote 2 ''n3'' 0 0, Ask_vote 3 ''n3'' 0 0]"


text \<open>
  Installing a snapshot clears the vote of the current term: a replica that has voted in a term votes
  for another candidate in the same term after it.
\<close>

lemma snapshot_forgets_vote:
  "case RaftReplica ''n1'' 0 None [] 0 of
     Inl _ \<Rightarrow> False
   | Inr r \<Rightarrow>
       (case bindE (request_vote 1 ''n2'' 0 0) (\<lambda>first.
             bindE (install_snapshot \<lparr>snap_term = 1, snap_commit_index = 0, snap_log = []\<rparr>) (\<lambda>_.
             bindE (request_vote 1 ''n3'' 0 0) (\<lambda>second. ret (first, second)))) r of
          (Inr (first, second), _) \<Rightarrow> first \<and> second
        | _ \<Rightarrow> False)"
  by code_simp

end
