(* ===== verification/Cluster.thy ===== *)
theory Cluster
  imports Shard
begin

text \<open>
  The class \<open>Cluster\<close> of \<^verbatim>\<open>src/cluster.cpp\<close>: shards, and the routing of keys to them. All shards
  hold a reference to one \<open>Metrics\<close> object; it is \<open>cluster_metrics\<close> here, handed to the shard for
  the time of a call and taken back afterwards, so that what one shard counts the next one sees.
\<close>

record cluster =
  shards :: "shard list"
  cluster_metrics :: metrics

definition on_shard :: "nat \<Rightarrow> (shard, 'a) op \<Rightarrow> (cluster, 'a) op" where
  "on_shard i = zoom (\<lambda>c. (shards c ! i)\<lparr>shard_metrics := cluster_metrics c\<rparr>)
     (\<lambda>s c. c\<lparr>shards := (shards c)[i := s], cluster_metrics := shard_metrics s\<rparr>)"

fun open_shards :: "nat \<Rightarrow> disk \<Rightarrow> engine \<Rightarrow> int \<Rightarrow> nat list \<Rightarrow> metrics \<Rightarrow> exn + (shard list \<times> metrics)" where
  "open_shards n files eng now [] m = Inr ([], m)"
| "open_shards n files eng now (i # is) m =
    (case Shard i n files eng now m of
       Inl e \<Rightarrow> Inl e
     | Inr s \<Rightarrow>
         (case open_shards n files eng now is (shard_metrics s) of
            Inl e \<Rightarrow> Inl e
          | Inr (ss, m') \<Rightarrow> Inr (s # ss, m')))"

text \<open>\<open>mkdir\<close> is the exception that \<open>std::filesystem::create_directories\<close> throws, if it does.\<close>

definition Cluster :: "nat \<Rightarrow> nat \<Rightarrow> exn option \<Rightarrow> disk \<Rightarrow> engine \<Rightarrow> int \<Rightarrow> metrics \<Rightarrow> exn + cluster" where
  "Cluster shard_count replicas_per_shard mkdir files eng now m =
    (if shard_count < 1 then Inl (Invalid_argument ''shard_count must be at least 1'')
     else (case mkdir of
        Some e \<Rightarrow> Inl e
      | None \<Rightarrow>
          (case open_shards replicas_per_shard files eng now [0..<shard_count] m of
             Inl e \<Rightarrow> Inl e
           | Inr (ss, m') \<Rightarrow> Inr \<lparr>shards = ss, cluster_metrics = m'\<rparr>)))"

definition shard_for_key :: "nat \<Rightarrow> string \<Rightarrow> nat" where
  "shard_for_key n key = unat (fnv1a_64 key) mod n"

definition cluster_put :: "string \<Rightarrow> string \<Rightarrow> (cluster, operation_result) op" where
  "cluster_put key val =
     bindE (getE shards) (\<lambda>ss. on_shard (shard_for_key (length ss) key) (shard_put key val))"

definition cluster_erase :: "string \<Rightarrow> (cluster, operation_result) op" where
  "cluster_erase key =
     bindE (getE shards) (\<lambda>ss. on_shard (shard_for_key (length ss) key) (shard_erase key))"

definition cluster_get :: "string \<Rightarrow> (cluster, operation_result) op" where
  "cluster_get key =
     bindE (getE shards) (\<lambda>ss. on_shard (shard_for_key (length ss) key) (shard_get key))"

definition cluster_fail_replica :: "nat \<Rightarrow> string \<Rightarrow> (cluster, bool) op" where
  "cluster_fail_replica sid rid =
     bindE (getE shards) (\<lambda>ss.
     if sid < length ss then on_shard sid (shard_fail_replica rid) else ret False)"

definition cluster_recover_replica :: "nat \<Rightarrow> string \<Rightarrow> (cluster, bool) op" where
  "cluster_recover_replica sid rid =
     bindE (getE shards) (\<lambda>ss.
     if sid < length ss then on_shard sid (shard_recover_replica rid) else ret False)"

definition cluster_elect :: "nat \<Rightarrow> (cluster, bool) op" where
  "cluster_elect sid =
     bindE (getE shards) (\<lambda>ss.
     if sid < length ss then on_shard sid shard_elect_leader else ret False)"

definition cluster_status_json :: "(cluster, string) op" where
  "cluster_status_json =
     bindE (getE shards) (\<lambda>ss.
     bindE (foldE (\<lambda>i out.
        bindE (on_shard i shard_status_json) (\<lambda>j.
        ret (out @ (if i > 0 then '','' else []) @ j))) [0..<length ss] []) (\<lambda>out.
     ret (''{\"shard_count\":'' @ nat_to_string (length ss) @ '',\"shards\":['' @ out @ '']}'')))"

end
