(* ===== verification/Token_Bucket.thy ===== *)
theory Token_Bucket
  imports Prelude Complex_Main
begin

text \<open>
  The class \<open>TokenBucket\<close> of \<^verbatim>\<open>src/gateway.cpp\<close>. Time points of \<open>std::chrono::steady_clock\<close> are
  integers, in nanoseconds; the caller reads the clock. The arithmetic is on \<open>double\<close>: values are
  rational numbers and \<open>rnd\<close> rounds the exact result of an operation to the nearest \<open>double\<close>; it is
  an argument of the operation, and what IEEE 754 says about it (it is monotone and keeps the numbers
  that are a \<open>double\<close>) is a hypothesis where it is needed. Infinities and NaN are left out.
\<close>

record token_bucket =
  refill_per_second :: rat
  capacity :: rat
  tokens :: rat
  last_refill :: int

definition TokenBucket :: "rat \<Rightarrow> rat \<Rightarrow> int \<Rightarrow> token_bucket" where
  "TokenBucket rate cap now =
     \<lparr>refill_per_second = rate, capacity = cap, tokens = cap, last_refill = now\<rparr>"

text \<open>\<open>std::chrono::duration<double>\<close> of a number of nanoseconds.\<close>

definition seconds :: "(rat \<Rightarrow> rat) \<Rightarrow> int \<Rightarrow> rat" where
  "seconds rnd ns = rnd (rnd (of_int ns) / 1000000000)"

definition consume :: "(rat \<Rightarrow> rat) \<Rightarrow> int \<Rightarrow> rat \<Rightarrow> token_bucket \<Rightarrow> bool \<times> token_bucket" where
  "consume rnd now n b =
    (let elapsed = seconds rnd (now - last_refill b);
         available = min (capacity b) (rnd (tokens b + rnd (elapsed * refill_per_second b)));
         b' = b\<lparr>tokens := available, last_refill := now\<rparr>
     in if available < n then (False, b')
        else (True, b'\<lparr>tokens := rnd (available - n)\<rparr>))"

subsection \<open>Invariant\<close>

definition bucket_ok :: "token_bucket \<Rightarrow> bool" where
  "bucket_ok b \<longleftrightarrow> 0 \<le> refill_per_second b \<and> 0 \<le> tokens b \<and> tokens b \<le> capacity b"

text \<open>What is needed of rounding: monotone, and exact on zero and on the capacity.\<close>

definition rounds :: "(rat \<Rightarrow> rat) \<Rightarrow> rat \<Rightarrow> bool" where
  "rounds rnd cap \<longleftrightarrow> mono rnd \<and> rnd 0 = 0 \<and> rnd cap = cap"

lemma consume_fields [simp]:
  "refill_per_second (snd (consume rnd now n b)) = refill_per_second b"
  "capacity (snd (consume rnd now n b)) = capacity b"
  "last_refill (snd (consume rnd now n b)) = now"
  by (simp_all add: consume_def Let_def)

lemma consume_ok:
  assumes "bucket_ok b" and r: "rounds rnd (capacity b)" and "last_refill b \<le> now" and "0 \<le> n"
  shows "bucket_ok (snd (consume rnd now n b))"
proof -
  have mono: "rnd x \<le> rnd y" if "x \<le> y" for x y using r that by (simp add: rounds_def mono_def)
  have pos: "0 \<le> rnd x" if "0 \<le> x" for x using mono [OF that] r by (simp add: rounds_def)
  have "0 \<le> seconds rnd (now - last_refill b)"
    using assms(3) by (simp add: seconds_def pos)
  then have "0 \<le> rnd (tokens b + rnd (seconds rnd (now - last_refill b) * refill_per_second b))"
    using assms(1) by (simp add: bucket_ok_def pos)
  moreover have "rnd (x - n) \<le> capacity b" if "x \<le> capacity b" for x
    using mono [of "x - n" "capacity b"] that assms(4) r by (simp add: rounds_def)
  ultimately show ?thesis
    using assms(1) pos by (auto simp: consume_def Let_def bucket_ok_def not_less)
qed

subsection \<open>Rates\<close>

text \<open>Requests for one token at a list of times: how many are granted, and the bucket afterwards.\<close>

fun grants :: "(rat \<Rightarrow> rat) \<Rightarrow> int list \<Rightarrow> token_bucket \<Rightarrow> nat" where
  "grants rnd [] b = 0"
| "grants rnd (t # ts) b =
    (case consume rnd t 1 b of (ok, b') \<Rightarrow> (if ok then 1 else 0) + grants rnd ts b')"

text \<open>With exact arithmetic, tokens in hand and given out never exceed what was there plus the refill.\<close>

lemma consume_exact:
  "tokens (snd (consume (\<lambda>x. x) now n b)) + (if fst (consume (\<lambda>x. x) now n b) then n else 0) \<le>
    tokens b + refill_per_second b * of_int (now - last_refill b) / 1000000000"
  by (simp add: consume_def Let_def seconds_def mult.commute)

lemma grants_exact:
  assumes "bucket_ok b" and "sorted ts" and "\<forall>t \<in> set ts. last_refill b \<le> t" and "ts \<noteq> []"
  shows "of_nat (grants (\<lambda>x. x) ts b) \<le>
    tokens b + refill_per_second b * of_int (last ts - last_refill b) / 1000000000"
  using assms
proof (induction ts arbitrary: b)
  case (Cons t ts)
  let ?b = "snd (consume (\<lambda>x. x) t 1 b)" and ?ok = "fst (consume (\<lambda>x. x) t 1 b)"
  have ok: "bucket_ok ?b"
    using Cons.prems by (intro consume_ok) (auto simp: rounds_def mono_def)
  have g: "grants (\<lambda>x. x) (t # ts) b = (if ?ok then 1 else 0) + grants (\<lambda>x. x) ts ?b"
    by (simp split: prod.splits)
  have step: "tokens ?b + (if ?ok then 1 else 0) \<le> tokens b + refill_per_second b * of_int (t - last_refill b) / 1000000000"
    by (rule consume_exact)
  show ?case
  proof (cases "ts = []")
    case True
    have "0 \<le> tokens ?b" using ok by (simp add: bucket_ok_def)
    then show ?thesis using True g step by (cases ?ok) simp_all
  next
    case False
    then have "of_nat (grants (\<lambda>x. x) ts ?b) \<le>
        tokens ?b + refill_per_second b * of_int (last ts - t) / 1000000000"
      using Cons.IH [OF ok] Cons.prems by simp
    moreover have "refill_per_second b * of_int (t - last_refill b) / 1000000000 +
        refill_per_second b * of_int (last ts - t) / 1000000000 =
        refill_per_second b * of_int (last ts - last_refill b) / 1000000000"
      by (simp add: field_simps)
    ultimately show ?thesis using False g step by (cases ?ok) simp_all
  qed
qed simp



lemma grants_same_instant:
  assumes "\<forall>i \<le> B. rnd (of_nat i) = of_nat i"
  shows "m \<le> B \<Longrightarrow> capacity b = of_nat B \<Longrightarrow> tokens b = of_nat m \<Longrightarrow>
    grants rnd (replicate k (last_refill b)) b = min k m"
proof (induction k arbitrary: b m)
  case (Suc k)
  let ?b = "snd (consume rnd (last_refill b) 1 b)"
  have zero: "rnd 0 = 0" using assms spec [OF assms, of 0] by simp
  have min: "min (capacity b) (rnd (tokens b)) = of_nat m"
    using Suc.prems assms by simp
  show ?case
  proof (cases m)
    case 0
    then have "consume rnd (last_refill b) 1 b = (False, b)"
      using min zero Suc.prems by (cases b) (simp add: consume_def seconds_def Let_def)
    then show ?thesis using Suc.IH [of m b] Suc.prems 0 by simp
  next
    case (Suc m')
    have "rnd (of_nat m - 1) = of_nat m'"
      using assms Suc Suc.prems(1) by simp
    then have "consume rnd (last_refill b) 1 b = (True, b\<lparr>tokens := of_nat m'\<rparr>)"
      using min zero Suc.prems Suc by (cases b) (simp add: consume_def seconds_def Let_def)
    then show ?thesis
      using Suc.IH [of m' "b\<lparr>tokens := of_nat m'\<rparr>"] Suc.prems Suc by simp
  qed
qed simp

text \<open>
  C26. The burst: a full bucket with the whole capacity \<open>B\<close> grants exactly \<open>B\<close> of any number of requests
  that arrive at the same instant, for every rounding that keeps the whole numbers up to \<open>B\<close> (doubles
  keep them up to \<open>2^53\<close>).
\<close>

theorem burst_is_limited:
  assumes "\<forall>i \<le> B. rnd (of_nat i) = of_nat i"
  shows "grants rnd (replicate k t0) (TokenBucket rate (of_nat B) t0) = min k B"
  using grants_same_instant [OF assms, of B "TokenBucket rate (of_nat B) t0" k]
  by (simp add: TokenBucket_def)

theorem burst_is_limited_witness:
  "grants (\<lambda>x. of_int (round x)) (replicate 100 7) (TokenBucket 20 (of_nat 40) 7) = min 100 40"
  using burst_is_limited [of 40 "\<lambda>x. of_int (round x)" 100 7 20] by simp

end
