(* ===== verification/Circuit_Breaker.thy ===== *)
theory Circuit_Breaker
  imports Prelude
begin

text \<open>
  The class \<open>CircuitBreaker\<close> of \<^verbatim>\<open>src/gateway.cpp\<close>, a state machine. Time points and durations are
  integers, in nanoseconds; the caller reads the clock. \<open>std::size_t\<close> counters are 64-bit words.
\<close>

datatype circuit_state = Closed | Open | HalfOpen

record circuit_breaker =
  failure_threshold :: "64 word"
  open_duration :: int
  consecutive_failures :: "64 word"
  breaker_state :: circuit_state
  opened_at :: int

definition CircuitBreaker :: "64 word \<Rightarrow> int \<Rightarrow> circuit_breaker" where
  "CircuitBreaker threshold duration =
     \<lparr>failure_threshold = threshold, open_duration = duration, consecutive_failures = 0,
      breaker_state = Closed, opened_at = 0\<rparr>"

definition milliseconds :: "int \<Rightarrow> int" where
  "milliseconds n = n * 1000000"

definition allow_request :: "int \<Rightarrow> circuit_breaker \<Rightarrow> bool \<times> circuit_breaker" where
  "allow_request now b =
    (if breaker_state b = Closed then (True, b)
     else if breaker_state b = Open
     then (if now - opened_at b \<ge> open_duration b then (True, b\<lparr>breaker_state := HalfOpen\<rparr>)
           else (False, b))
     else (True, b))"

definition record_success :: "circuit_breaker \<Rightarrow> circuit_breaker" where
  "record_success b = b\<lparr>consecutive_failures := 0, breaker_state := Closed\<rparr>"

definition record_failure :: "int \<Rightarrow> circuit_breaker \<Rightarrow> circuit_breaker" where
  "record_failure now b =
    (let b' = b\<lparr>consecutive_failures := consecutive_failures b + 1\<rparr>
     in if breaker_state b' = HalfOpen \<or> consecutive_failures b' \<ge> failure_threshold b'
        then b'\<lparr>breaker_state := Open, opened_at := now\<rparr> else b')"

definition state_string :: "circuit_breaker \<Rightarrow> string" where
  "state_string b =
    (case breaker_state b of Closed \<Rightarrow> ''closed'' | Open \<Rightarrow> ''open'' | HalfOpen \<Rightarrow> ''half-open'')"

subsection \<open>The state machine\<close>

datatype breaker_event = Ask int | Success | Failure int

definition breaker_step :: "breaker_event \<Rightarrow> circuit_breaker \<Rightarrow> circuit_breaker" where
  "breaker_step e b =
    (case e of
       Ask now \<Rightarrow> snd (allow_request now b)
     | Success \<Rightarrow> record_success b
     | Failure now \<Rightarrow> record_failure now b)"

text \<open>While the breaker is closed, fewer failures than the threshold have been counted.\<close>

definition breaker_ok :: "64 word \<Rightarrow> int \<Rightarrow> circuit_breaker \<Rightarrow> bool" where
  "breaker_ok n d b \<longleftrightarrow> failure_threshold b = n \<and> open_duration b = d \<and> 0 < n \<and>
     (breaker_state b = Closed \<longrightarrow> consecutive_failures b < n)"

interpretation breaker: event_machine "\<lambda>b. 0 < n \<and> b = CircuitBreaker n d" breaker_step "breaker_ok n d" for n d
  by unfold_locales
    (auto simp: breaker_ok_def breaker_step_def CircuitBreaker_def allow_request_def record_success_def
      record_failure_def Let_def split: breaker_event.splits)

text \<open>Events between which no success is recorded, counted by their failures.\<close>

fun failures :: "breaker_event list \<Rightarrow> nat" where
  "failures [] = 0"
| "failures (Failure t # es) = Suc (failures es)"
| "failures (e # es) = failures es"

lemma closed_counts:
  assumes "\<forall>e \<in> set es. e \<noteq> Success" and "breaker_state b = Closed"
    and "unat (consecutive_failures b) + failures es < unat (failure_threshold b)"
  shows "breaker_state (fold breaker_step es b) = Closed \<and>
    unat (consecutive_failures (fold breaker_step es b)) = unat (consecutive_failures b) + failures es \<and>
    failure_threshold (fold breaker_step es b) = failure_threshold b"
  using assms
proof (induction es arbitrary: b)
  case (Cons e es)
  show ?case
  proof (cases e)
    case (Ask t)
    then show ?thesis using Cons by (simp add: breaker_step_def allow_request_def)
  next
    case Success
    then show ?thesis using Cons.prems by simp
  next
    case (Failure t)
    let ?b = "b\<lparr>consecutive_failures := consecutive_failures b + 1\<rparr>"
    have lt: "unat (consecutive_failures b) + 1 < 2 ^ 64"
      using Cons.prems(3) Failure unsigned_less [of "failure_threshold b", where 'a = nat] by simp
    then have inc: "unat (consecutive_failures b + 1) = unat (consecutive_failures b) + 1"
      by (simp add: unat_word_ariths)
    then have "consecutive_failures b + 1 < failure_threshold b"
      using Cons.prems(3) Failure by (simp add: word_less_nat_alt)
    then have "breaker_step e b = ?b"
      using Failure Cons.prems(2) by (simp add: breaker_step_def record_failure_def Let_def)
    then show ?thesis using Cons.IH [of ?b] Cons.prems Failure inc by simp
  qed
qed simp

text \<open>
  C27. The breaker opens exactly at its threshold. Start a breaker with threshold \<open>n\<close> and record any
  events without a success. With fewer than \<open>n\<close> failures it is closed and allows every request. The
  \<open>n\<close>-th failure, at time \<open>t\<close>, opens it: it then refuses every request before \<open>t\<close> plus the open
  duration, without changing, and allows the first one from then on, in the half-open state.
\<close>

theorem breaker_opens_at_threshold:
  assumes "0 < n" and "\<forall>e \<in> set es. e \<noteq> Success" and "Suc (failures es) = unat n"
  shows "(let b = fold breaker_step es (CircuitBreaker n d); b' = breaker_step (Failure t) b
    in fst (allow_request now b) \<and> breaker_state b = Closed \<and> breaker_state b' = Open \<and>
       (now < t + d \<longrightarrow> allow_request now b' = (False, b')) \<and>
       (t + d \<le> now \<longrightarrow> allow_request now b' = (True, b'\<lparr>breaker_state := HalfOpen\<rparr>)))"
proof -
  let ?start = "CircuitBreaker n d"
  let ?b = "fold breaker_step es ?start"
  have init: "breaker_state ?start = Closed" "consecutive_failures ?start = 0" "failure_threshold ?start = n"
    by (simp_all add: CircuitBreaker_def)
  have b: "breaker_state ?b = Closed" "unat (consecutive_failures ?b) = failures es" "failure_threshold ?b = n"
    using closed_counts [of es ?start] assms(2,3) init by simp_all
  have d: "open_duration ?b = d"
    using breaker.run_inv [of n ?start d es] assms(1) by (simp add: breaker_ok_def)
  have "unat (consecutive_failures ?b + 1) = unat n"
    using b(2) assms(3) unsigned_less [of n, where 'a = nat] by (simp add: unat_word_ariths)
  then have "consecutive_failures ?b + 1 = n" by (simp add: word_unat_eq_iff)
  then show ?thesis
    using b d by (auto simp: Let_def breaker_step_def record_failure_def allow_request_def)
qed

theorem breaker_opens_at_threshold_witness:
  "(let b = fold breaker_step [Failure 1, Ask 2, Failure 3] (CircuitBreaker 3 (milliseconds 5000));
        b' = breaker_step (Failure 10) b
    in fst (allow_request 11 b) \<and> breaker_state b = Closed \<and> breaker_state b' = Open \<and>
       (11 < 10 + milliseconds 5000 \<longrightarrow> allow_request 11 b' = (False, b')) \<and>
       (10 + milliseconds 5000 \<le> 11 \<longrightarrow> allow_request 11 b' = (True, b'\<lparr>breaker_state := HalfOpen\<rparr>)))"
  by (rule breaker_opens_at_threshold) simp_all

text \<open>
  C28. Half-open: the next outcome decides, whatever was counted before. A success closes the breaker
  with the count reset; a failure at time \<open>t\<close> opens it again for the whole duration from \<open>t\<close> on.
\<close>

theorem half_open_decides:
  assumes "breaker_state b = HalfOpen"
  shows "breaker_state (record_success b) = Closed \<and> consecutive_failures (record_success b) = 0 \<and>
    breaker_state (record_failure t b) = Open \<and>
    (now < t + open_duration b \<longrightarrow> \<not> fst (allow_request now (record_failure t b)))"
  using assms by (auto simp: record_success_def record_failure_def allow_request_def Let_def)

theorem half_open_decides_witness:
  "let b = (CircuitBreaker 3 5)\<lparr>breaker_state := HalfOpen\<rparr>
   in breaker_state (record_success b) = Closed \<and> consecutive_failures (record_success b) = 0 \<and>
    breaker_state (record_failure 7 b) = Open \<and>
    (9 < 7 + open_duration b \<longrightarrow> \<not> fst (allow_request 9 (record_failure 7 b)))"
  using half_open_decides [of "(CircuitBreaker 3 5)\<lparr>breaker_state := HalfOpen\<rparr>" 7 9] by (simp add: Let_def)

end
