(* ===== verification/Gateway.thy ===== *)
theory Gateway
  imports Cluster Token_Bucket Circuit_Breaker "HOL-Library.AList"
begin

text \<open>
  The class \<open>Gateway\<close> of \<^verbatim>\<open>src/gateway.cpp\<close>, with the request and response types of
  \<^verbatim>\<open>include/kv/http_server.hpp\<close>. \<open>steady_clock\<close> is part of the state: \<open>ticks\<close> are the nanoseconds that
  pass before each coming reading, so readings never go back; sleeping passes time too. The gateway's
  and the cluster's \<open>metrics_\<close> refer to one object, the \<open>cluster_metrics\<close>.

  A request that is handled may never end (the retry loop, when the largest retry count is configured),
  so \<open>handle\<close> is a function into an option: \<open>None\<close> means that it does not return.
\<close>

subsection \<open>Messages\<close>

record http_request =
  req_method :: string
  req_path :: string
  req_version :: string
  req_headers :: "(string, string) table"
  req_body :: string
  req_remote_ip :: string

record http_response =
  resp_status :: int
  resp_content_type :: string
  resp_body :: string
  resp_headers :: "(string, string) table"

definition HttpResponse :: http_response where
  "HttpResponse = \<lparr>resp_status = 200, resp_content_type = ''application/json'', resp_body = [],
     resp_headers = []\<rparr>"

definition json_response :: "int \<Rightarrow> string \<Rightarrow> http_response" where
  "json_response status body = HttpResponse\<lparr>resp_status := status,
     resp_content_type := ''application/json'', resp_body := body\<rparr>"

subsection \<open>State\<close>

record steady_clock =
  time :: int
  ticks :: "nat list"

record gateway =
  gw_cluster :: cluster
  api_key :: string
  rate_per_second :: rat
  burst :: rat
  max_retries :: "64 word"
  buckets :: "(string \<times> token_bucket) list"
  breakers :: "circuit_breaker list"
  clk :: steady_clock

definition Gateway :: "cluster \<Rightarrow> string \<Rightarrow> rat \<Rightarrow> rat \<Rightarrow> 64 word \<Rightarrow> steady_clock \<Rightarrow> gateway" where
  "Gateway c key rate bst rtrs ck =
     \<lparr>gw_cluster = c, api_key = key, rate_per_second = rate, burst = bst, max_retries = rtrs,
      buckets = [], breakers = replicate (length (shards c)) (CircuitBreaker 3 (milliseconds 5000)),
      clk = ck\<rparr>"

definition now :: "(gateway, int) op" where
  "now g =
    (let t = time (clk g) + (case ticks (clk g) of [] \<Rightarrow> 0 | d # _ \<Rightarrow> int d)
     in (Inr t, g\<lparr>clk := \<lparr>time = t, ticks = tl (ticks (clk g))\<rparr>\<rparr>))"

definition sleep_for :: "int \<Rightarrow> (gateway, unit) op" where
  "sleep_for d = modifyE (\<lambda>g. g\<lparr>clk := (clk g)\<lparr>time := time (clk g) + d\<rparr>\<rparr>)"

definition on_cluster :: "(cluster, 'a) op \<Rightarrow> (gateway, 'a) op" where
  "on_cluster = zoom gw_cluster (\<lambda>c g. g\<lparr>gw_cluster := c\<rparr>)"

definition count_gateway :: "(metrics \<Rightarrow> metrics) \<Rightarrow> (gateway, unit) op" where
  "count_gateway f = on_cluster (modifyE (\<lambda>c. c\<lparr>cluster_metrics := f (cluster_metrics c)\<rparr>))"

subsection \<open>Authentication and rate limiting\<close>

definition authorized :: "http_request \<Rightarrow> gateway \<Rightarrow> bool" where
  "authorized request g =
    (case select_key ''authorization'' (req_headers request) of
       None \<Rightarrow> False
     | Some v \<Rightarrow> v = ''Bearer '' @ api_key g)"

definition allowed_by_rate_limit :: "(rat \<Rightarrow> rat) \<Rightarrow> string \<Rightarrow> (gateway, bool) op" where
  "allowed_by_rate_limit rnd client_id =
     bindE (getE id) (\<lambda>g.
     bindE (case map_of (buckets g) client_id of
         None \<Rightarrow> bindE now (\<lambda>t. ret (TokenBucket (rate_per_second g) (burst g) t))
       | Some b \<Rightarrow> ret b) (\<lambda>b.
     bindE now (\<lambda>t.
     let (ok, b') = consume rnd t 1 b
     in bindE (modifyE (\<lambda>g. g\<lparr>buckets := AList.update client_id b' (buckets g)\<rparr>)) (\<lambda>_. ret ok))))"

subsection \<open>Retries and the circuit breaker\<close>

text \<open>\<open>breakers_.at(shard_id)\<close>\<close>

definition breaker_for :: "nat \<Rightarrow> (circuit_breaker \<Rightarrow> 'a \<times> circuit_breaker) \<Rightarrow> (gateway, 'a) op" where
  "breaker_for i f =
     bindE (getE breakers) (\<lambda>bs.
     if i < length bs
     then (case f (bs ! i) of (x, b) \<Rightarrow>
        bindE (modifyE (\<lambda>g. g\<lparr>breakers := (breakers g)[i := b]\<rparr>)) (\<lambda>_. ret x))
     else throwE (Out_of_range ''vector::_M_range_check''))"

text \<open>\<open>breaker_for(shard_id).allow_request()\<close>, which reads the clock only in the open state.\<close>

definition breaker_allows :: "nat \<Rightarrow> (gateway, bool) op" where
  "breaker_allows i =
     bindE (getE breakers) (\<lambda>bs.
     if i < length bs \<and> breaker_state (bs ! i) = Open
     then bindE now (\<lambda>t. breaker_for i (allow_request t))
     else bindE (getE (\<lambda>g. time (clk g))) (\<lambda>t. breaker_for i (allow_request t)))"

text \<open>\<open>breaker_for(shard_id).record_failure()\<close>, which reads the clock only when it opens the breaker.\<close>

definition breaker_fails :: "nat \<Rightarrow> (gateway, unit) op" where
  "breaker_fails i =
     bindE (getE breakers) (\<lambda>bs.
     bindE (if i < length bs \<and> (breaker_state (bs ! i) = HalfOpen \<or>
              consecutive_failures (bs ! i) + 1 \<ge> failure_threshold (bs ! i))
            then now else getE (\<lambda>g. time (clk g))) (\<lambda>t.
     breaker_for i (\<lambda>b. ((), record_failure t b))))"

definition cluster_call :: "string \<Rightarrow> string \<Rightarrow> string \<Rightarrow> (cluster, operation_result) op" where
  "cluster_call operation key val =
    (if operation = ''GET'' then cluster_get key
     else if operation = ''PUT'' then cluster_put key val
     else cluster_erase key)"

text \<open>
  What follows an attempt that failed: \<open>record_failure\<close>, and unless it was the last one a retry is
  counted and the thread sleeps. (The shift is undefined from 64 attempts on.)
\<close>

definition backoff :: "64 word \<Rightarrow> int" where
  "backoff attempt = milliseconds (uint (20 * push_bit (unat attempt) 1 :: 64 word))"

definition after_failure :: "nat \<Rightarrow> 64 word \<Rightarrow> (gateway, unit) op" where
  "after_failure i attempt =
     bindE (breaker_fails i) (\<lambda>_.
     bindE (getE max_retries) (\<lambda>n.
     if attempt < n
     then bindE (count_gateway inc_retry) (\<lambda>_. sleep_for (backoff attempt))
     else ret ()))"

text \<open>The loop \<open>for (attempt = 0; attempt <= max_retries_; ++attempt)\<close>, from \<open>attempt\<close> on.\<close>

partial_function (option) attempts ::
    "(cluster, operation_result) op \<Rightarrow> nat \<Rightarrow> 64 word \<Rightarrow> gateway \<Rightarrow>
     ((exn + operation_result) \<times> gateway) option" where
  "attempts call i attempt g =
    (case on_cluster call g of
       (Inl e, g1) \<Rightarrow> Some (Inl e, g1)
     | (Inr result, g1) \<Rightarrow>
         (if res_status result < 500
          then Some (bindE (breaker_for i (\<lambda>b. ((), record_success b))) (\<lambda>_. ret result) g1)
          else (case after_failure i attempt g1 of
             (Inl e, g2) \<Rightarrow> Some (Inl e, g2)
           | (Inr _, g2) \<Rightarrow>
               (if attempt + 1 \<le> max_retries g2 then attempts call i (attempt + 1) g2
                else Some (Inr result, g2)))))"

text \<open>The response to the result of the last attempt.\<close>

definition result_body :: "string \<Rightarrow> string \<Rightarrow> operation_result \<Rightarrow> string" where
  "result_body operation key r =
    (if res_ok r
     then ''{\"status\":\"'' @ json_escape (res_message r) @ ''\"'' @
          '',\"key\":\"'' @ json_escape key @ ''\"'' @
          '',\"shard\":'' @ nat_to_string (res_shard r) @
          '',\"leader\":\"'' @ json_escape (res_leader r) @ ''\"'' @
          (if operation = ''GET'' then '',\"value\":\"'' @ json_escape (res_value r) @ ''\"'' else []) @
          ''}''
     else ''{\"error\":\"'' @ json_escape (res_message r) @ ''\"'' @
          '',\"key\":\"'' @ json_escape key @ ''\"'' @
          '',\"shard\":'' @ nat_to_string (res_shard r) @
          (if res_leader r \<noteq> [] then '',\"leader\":\"'' @ json_escape (res_leader r) @ ''\"'' else []) @
          ''}'')"

definition respond :: "string \<Rightarrow> string \<Rightarrow> operation_result \<Rightarrow> (gateway, http_response) op" where
  "respond operation key r =
     bindE (if res_status r \<ge> 500 then count_gateway inc_gateway_failure else ret ()) (\<lambda>_.
     ret (json_response (res_status r) (result_body operation key r)))"

definition breaker_open_body :: "nat \<Rightarrow> string" where
  "breaker_open_body i = ''{\"error\":\"circuit breaker is open\",\"shard\":'' @ nat_to_string i @ ''}''"

definition execute_with_resilience ::
    "string \<Rightarrow> string \<Rightarrow> string \<Rightarrow> gateway \<Rightarrow> ((exn + http_response) \<times> gateway) option" where
  "execute_with_resilience operation key val g =
    (let i = shard_for_key (length (shards (gw_cluster g))) key
     in case breaker_allows i g of
          (Inl e, g1) \<Rightarrow> Some (Inl e, g1)
        | (Inr allowed, g1) \<Rightarrow>
            (if \<not> allowed
             then Some (bindE (count_gateway inc_circuit_open) (\<lambda>_.
                    ret (json_response 503 (breaker_open_body i))) g1)
             else (case attempts (cluster_call operation key val) i 0 g1 of
                None \<Rightarrow> None
              | Some (Inl e, g2) \<Rightarrow> Some (Inl e, g2)
              | Some (Inr result, g2) \<Rightarrow> Some (respond operation key result g2))))"

subsection \<open>Requests\<close>

text \<open>The lambda \<open>finish\<close>, called on the response of every branch of \<open>handle\<close>.\<close>

definition finish :: "int \<Rightarrow> http_response \<Rightarrow> (gateway, http_response) op" where
  "finish started response =
     bindE now (\<lambda>t.
     let elapsed = (t - started) div 1000
     in bindE (count_gateway (record_request (word_of_int elapsed))) (\<lambda>_.
        ret (response\<lparr>resp_headers :=
          upsert ''X-Request-Latency-Us'' (to_string elapsed)
            (upsert ''X-Content-Type-Options'' ''nosniff'' (resp_headers response))\<rparr>)))"

definition admin_replica :: "string \<Rightarrow> string \<Rightarrow> string \<Rightarrow> (gateway, http_response) op" where
  "admin_replica action shard rid =
     catchE
       (bindE (liftE (stoull shard)) (\<lambda>sid.
        bindE (on_cluster (if action = ''fail'' then cluster_fail_replica (unat sid) rid
                           else cluster_recover_replica (unat sid) rid)) (\<lambda>ok.
        ret (if \<not> ok then json_response 404 ''{\"error\":\"replica or shard not found\"}''
             else json_response 200 (''{\"status\":\"ok\",\"action\":\"'' @ json_escape action @
               ''\",\"replica\":\"'' @ json_escape rid @ ''\"}'')))))
       (\<lambda>_. ret (json_response 400 ''{\"error\":\"invalid shard id\"}''))"

definition admin_elect :: "string \<Rightarrow> (gateway, http_response) op" where
  "admin_elect shard =
     catchE
       (bindE (liftE (stoull shard)) (\<lambda>sid.
        bindE (on_cluster (cluster_elect (unat sid))) (\<lambda>ok.
        ret (if \<not> ok then json_response 503 ''{\"error\":\"leader election failed\"}''
             else json_response 200 ''{\"status\":\"leader elected\"}''))))
       (\<lambda>_. ret (json_response 400 ''{\"error\":\"invalid shard id\"}''))"

text \<open>An operation that returns, as a step that may not.\<close>

definition total :: "('s, 'a) op \<Rightarrow> 's \<Rightarrow> ((exn + 'a) \<times> 's) option" where
  "total m s = Some (m s)"

definition kv_route :: "http_request \<Rightarrow> string \<Rightarrow> gateway \<Rightarrow> ((exn + http_response) \<times> gateway) option" where
  "kv_route request key =
    (if key = [] \<or> length key > 512
     then total (ret (json_response 400 ''{\"error\":\"key must be 1-512 characters\"}''))
     else if req_method request = ''GET''
     then (\<lambda>g. execute_with_resilience ''GET'' key [] (snd (count_gateway inc_get g)))
     else if req_method request = ''PUT''
     then (if length (req_body request) > 1024 * 1024
           then total (ret (json_response 413 ''{\"error\":\"value exceeds 1 MiB\"}''))
           else (\<lambda>g. execute_with_resilience ''PUT'' key (req_body request) (snd (count_gateway inc_put g))))
     else if req_method request = ''DELETE''
     then (\<lambda>g. execute_with_resilience ''DELETE'' key [] (snd (count_gateway inc_delete g)))
     else total (ret (json_response 405 ''{\"error\":\"method not allowed\"}'')))"

text \<open>The routes behind authentication and rate limiting.\<close>

definition routes :: "http_request \<Rightarrow> gateway \<Rightarrow> ((exn + http_response) \<times> gateway) option" where
  "routes request =
    (let parts = split_path (req_path request)
     in if length parts = 3 \<and> parts ! 0 = ''v1'' \<and> parts ! 1 = ''kv'' then kv_route request (parts ! 2)
        else if req_path request = ''/admin/cluster'' \<and> req_method request = ''GET''
        then total (bindE (on_cluster cluster_status_json) (\<lambda>j. ret (json_response 200 j)))
        else if length parts = 4 \<and> parts ! 0 = ''admin'' \<and> (parts ! 1 = ''fail'' \<or> parts ! 1 = ''recover'') \<and>
          req_method request = ''POST''
        then total (admin_replica (parts ! 1) (parts ! 2) (parts ! 3))
        else if length parts = 3 \<and> parts ! 0 = ''admin'' \<and> parts ! 1 = ''elect'' \<and> req_method request = ''POST''
        then total (admin_elect (parts ! 2))
        else total (ret (json_response 404 ''{\"error\":\"route not found\"}'')))"

definition client_of :: "http_request \<Rightarrow> string" where
  "client_of request =
    (case select_key ''x-client-id'' (req_headers request) of
       None \<Rightarrow> req_remote_ip request | Some v \<Rightarrow> v)"

text \<open>Everything before the first \<open>return finish(...)\<close> behind the rate limit: \<open>Inl\<close> a response, \<open>Inr\<close> go on.\<close>

definition admit :: "(rat \<Rightarrow> rat) \<Rightarrow> http_request \<Rightarrow> (gateway, http_response + unit) op" where
  "admit rnd request =
     bindE (getE id) (\<lambda>g.
     if req_path request = ''/healthz'' then ret (Inl (json_response 200 ''{\"status\":\"ok\"}''))
     else if req_path request = ''/metrics''
     then ret (Inl (HttpResponse\<lparr>resp_status := 200, resp_content_type := ''text/plain; version=0.0.4'',
       resp_body := render_prometheus (cluster_metrics (gw_cluster g))\<rparr>))
     else if \<not> authorized request g
     then bindE (count_gateway inc_auth_failure) (\<lambda>_.
       ret (Inl (json_response 401 ''{\"error\":\"missing or invalid bearer token\"}'')))
     else
       bindE (allowed_by_rate_limit rnd (client_of request)) (\<lambda>ok.
       if \<not> ok
       then bindE (count_gateway inc_rate_limited) (\<lambda>_.
         ret (Inl ((json_response 429 ''{\"error\":\"rate limit exceeded\"}'')
           \<lparr>resp_headers := upsert ''Retry-After'' ''1'' []\<rparr>)))
       else ret (Inr ())))"

definition handle :: "(rat \<Rightarrow> rat) \<Rightarrow> http_request \<Rightarrow> gateway \<Rightarrow> ((exn + http_response) \<times> gateway) option" where
  "handle rnd request g =
    (case bindE now (\<lambda>started. bindE (admit rnd request) (\<lambda>x. ret (started, x))) g of
       (Inl e, g1) \<Rightarrow> Some (Inl e, g1)
     | (Inr (started, Inl response), g1) \<Rightarrow> Some (finish started response g1)
     | (Inr (started, Inr _), g1) \<Rightarrow>
         (case routes request g1 of
            None \<Rightarrow> None
          | Some (Inl e, g2) \<Rightarrow> Some (Inl e, g2)
          | Some (Inr response, g2) \<Rightarrow> Some (finish started response g2)))"

end
