(* ===== verification/Http_Parsing.thy ===== *)
theory Http_Parsing
  imports Http_Server
begin

text \<open>
  How the server reads a request: \<open>trim\<close> and \<open>find\<close> against reference definitions, the two reading
  loops on a connection whose pieces are not empty, and the wire format of a request, which is read back
  however its bytes are cut into pieces.
\<close>

subsection \<open>Trimming\<close>

lemma find_first_not_of_eq:
  "find_first_not_of cs s =
    (if set s \<subseteq> set cs then None else Some (length (takeWhile (\<lambda>c. c \<in> set cs) s)))"
  by (induction s) auto

definition strip :: "string \<Rightarrow> string" where
  "strip s = dropWhile (\<lambda>c. c \<in> set blanks) s"

lemma strip_Nil: "strip s = [] \<longleftrightarrow> set s \<subseteq> set blanks"
  by (induction s) (auto simp: strip_def)

lemma strip_empty [simp]: "strip [] = []"
  by (simp add: strip_def)

lemma take_until_last:
  "take (length s - length (takeWhile P (rev s))) s = rev (dropWhile P (rev s))"
  by (metis dropWhile_eq_drop drop_rev rev_rev_ident)

lemma trim_eq: "trim s = rev (strip (rev (strip s)))"
proof (cases "set s \<subseteq> set blanks")
  case True
  then have "strip s = []" by (simp add: strip_Nil)
  with True show ?thesis by (simp add: trim_def find_first_not_of_eq)
next
  case False
  let ?P = "\<lambda>c. c \<in> set blanks"
  let ?a = "takeWhile ?P s" and ?t = "dropWhile ?P s"
  have s: "s = ?a @ ?t" by simp
  have t: "?t \<noteq> []" using False strip_Nil [of s] by (simp add: strip_def)
  have nb: "\<exists>x \<in> set (rev ?t). \<not> ?P x" using t hd_dropWhile [of ?P s] by (intro bexI [of _ "hd ?t"]) simp_all
  then have tw: "takeWhile ?P (rev s) = takeWhile ?P (rev ?t)"
    by (subst s, simp only: rev_append) (metis (mono_tags, lifting) takeWhile_append1)
  let ?k = "length (takeWhile ?P (rev ?t))"
  have k: "?k < length ?t"
    using nb length_takeWhile_le [of ?P "rev ?t"] takeWhile_eq_all_conv [of ?P "rev ?t"]
    by (metis antisym_conv2 length_rev takeWhile_eq_take take_all_iff)
  have len: "length s = length ?a + length ?t" by (subst s) (simp only: length_append)
  have "trim s = take (length s - 1 - ?k - length ?a + 1) ?t"
    using False by (simp add: trim_def find_first_not_of_eq find_last_not_of_def tw dropWhile_eq_drop)
  also have "length s - 1 - ?k - length ?a + 1 = length ?t - ?k" using len k by linarith
  also have "take (length ?t - ?k) ?t = rev (dropWhile ?P (rev ?t))" by (rule take_until_last)
  finally show ?thesis by (simp add: strip_def)
qed

lemma strip_id: "s = [] \<or> hd s \<notin> set blanks \<Longrightarrow> strip s = s"
  by (cases s) (auto simp: strip_def)

lemma strip_blanks: "set a \<subseteq> set blanks \<Longrightarrow> strip (a @ s) = strip s"
  by (induction a) (auto simp: strip_def)

text \<open>A string without blanks at its ends.\<close>

definition trimmed :: "string \<Rightarrow> bool" where
  "trimmed s \<longleftrightarrow> s = [] \<or> hd s \<notin> set blanks \<and> last s \<notin> set blanks"

lemma trim_trimmed: "trimmed s \<Longrightarrow> trim s = s"
  by (auto simp: trim_eq trimmed_def strip_id hd_rev)

lemma trim_padded:
  assumes "trimmed s" and "set a \<subseteq> set blanks" and "set b \<subseteq> set blanks"
  shows "trim (a @ s @ b) = s"
proof (cases "s = []")
  case True
  have "set (a @ b) \<subseteq> set blanks" using assms by auto
  then have "strip (a @ b) = []" by (simp add: strip_Nil)
  then show ?thesis using True by (simp only: trim_eq append_Nil) simp
next
  case False
  then have "strip (a @ s @ b) = s @ b"
    using assms strip_blanks [OF assms(2), of "s @ b"] strip_id [of "s @ b"] by (auto simp: trimmed_def)
  moreover have "strip (rev b @ rev s) = rev s"
    using assms False strip_blanks [of "rev b" "rev s"] strip_id [of "rev s"] by (auto simp: trimmed_def hd_rev)
  ultimately show ?thesis by (simp add: trim_eq)
qed

lemma trim_is_trimmed: "trimmed (trim s)"
proof -
  have first: "strip t = [] \<or> hd (strip t) \<notin> set blanks" for t
    using hd_dropWhile [of "\<lambda>c. c \<in> set blanks" t] by (auto simp: strip_def)
  have "last (rev (strip (rev t))) \<notin> set blanks" if "strip (rev t) \<noteq> []" for t
    using first [of "rev t"] that by (simp add: last_rev)
  moreover have "hd (rev (strip (rev t))) = hd t" if "strip (rev t) \<noteq> []" for t
  proof -
    obtain u where "rev t = u @ strip (rev t)" unfolding strip_def by (metis takeWhile_dropWhile_id)
    then have "t = rev (strip (rev t)) @ rev u" by (metis rev_append rev_rev_ident)
    then show ?thesis using that by (metis hd_append2 rev_is_Nil_conv)
  qed
  moreover have "strip s \<noteq> []" if "strip (rev (strip s)) \<noteq> []" using that by auto
  ultimately show ?thesis using first [of s] unfolding trimmed_def trim_eq by (metis rev_is_Nil_conv)
qed

subsection \<open>Finding\<close>

lemma find_str_bound: "find_str pat s = Some i \<Longrightarrow> i + length pat \<le> length s"
proof (induction s arbitrary: i)
  case (Cons c s)
  show ?case
  proof (cases "take (length pat) (c # s) = pat")
    case True
    then have "length pat \<le> length (c # s)" by (metis length_take min.cobounded1)
    then show ?thesis using True Cons.prems by simp
  next
    case False
    then show ?thesis using Cons by auto
  qed
qed (simp split: if_splits)

lemma find_str_append:
  assumes "find_str pat s = Some i"
  shows "find_str pat (s @ t) = Some i"
  using assms
proof (induction s arbitrary: i)
  case Nil
  then have "pat = []" "i = 0" by (simp_all split: if_splits)
  then show ?case by (cases t) simp_all
next
  case (Cons c s)
  show ?case
  proof (cases "take (length pat) (c # s) = pat")
    case True
    then have "take (length pat) (c # s @ t) = pat"
      by (metis append_Cons append_take_drop_id length_take min.absorb_iff2 min.cobounded1 take_append take_all_iff
          append_Nil2 diff_is_0_eq take_eq_Nil)
    then show ?thesis using True Cons.prems by simp
  next
    case False
    then obtain j where j: "find_str pat s = Some j" "i = Suc j" using Cons.prems by auto
    have "length pat \<le> length s" using find_str_bound [OF j(1)] by simp
    then have "take (length pat) (c # s @ t) = take (length pat) (c # s)" by (cases pat) simp_all
    then show ?thesis using False Cons.IH [OF j(1)] j by simp
  qed
qed

text \<open>Text that holds the first byte of the pattern nowhere is skipped.\<close>

lemma find_str_skip:
  assumes "p \<notin> set a"
  shows "find_str (p # ps) (a @ s) = map_option (\<lambda>i. length a + i) (find_str (p # ps) s)"
  using assms by (induction a) (cases "find_str (p # ps) s"; auto)+

lemma find_str_prefix:
  assumes "find_str pat (s @ t) = Some i" and "i + length pat \<le> length s"
  shows "find_str pat s = Some i"
proof -
  have "find_str pat s = Some i" if "find_str pat (s @ t) = Some i" "i + length pat \<le> length s" for i s
    using that
  proof (induction s arbitrary: i)
    case Nil
    then show ?case by (cases t) (auto split: if_splits)
  next
    case (Cons c s)
    then have "take (length pat) (c # s @ t) = take (length pat) (c # s)"
      by (cases "length pat") simp_all
    then show ?case using Cons by (auto split: if_splits)
  qed
  then show ?thesis using assms by blast
qed

subsection \<open>The reading loops\<close>

definition no_gaps :: "connection \<Rightarrow> bool" where
  "no_gaps c \<longleftrightarrow> [] \<notin> set (incoming c)"

lemma recv_no_gaps:
  assumes "recv n c = (bytes, c1)" and "no_gaps c" and "0 < n"
  shows "no_gaps c1 \<and> (bytes = [] \<longrightarrow> incoming c = [])"
  using assms by (auto simp: recv_def no_gaps_def split: list.splits if_splits)

text \<open>The connection in one piece: the bytes that were read and the bytes that will come.\<close>

lemma read_headers_found:
  assumes "find_str (crlf @ crlf) (raw @ concat (incoming c)) = Some i" and "no_gaps c"
    and "i + 4 + 8192 \<le> max_request_size"
  shows "\<exists>raw' c'. read_headers raw c = (Inr (raw', i), c') \<and> i + 4 \<le> length raw' \<and>
    raw' @ concat (incoming c') = raw @ concat (incoming c) \<and> no_gaps c' \<and> accepts c' = accepts c \<and> sent c' = sent c"
  using assms
proof (induction raw c rule: read_headers.induct)
  case (1 raw c)
  have len: "length (crlf @ crlf) = 4" by (simp add: crlf_def)
  show ?case
  proof (cases "find_str (crlf @ crlf) raw")
    case (Some j)
    then have "j = i" using find_str_append [OF Some, of "concat (incoming c)"] 1(2) by simp
    then show ?thesis
      using Some find_str_bound [OF Some] len 1(3) by (simp add: read_headers.simps [of raw c])
  next
    case None
    have short: "length raw < i + 4"
      using None find_str_prefix [OF 1(2)] len by (metis leI option.distinct(1))
    obtain bytes c1 where r: "recv 8192 c = (bytes, c1)" by force
    have "concat (incoming c) \<noteq> []"
      using short find_str_bound [OF 1(2)] len by (cases "concat (incoming c)") simp_all
    then have ne: "bytes \<noteq> []" and gaps: "no_gaps c1"
      using recv_no_gaps [OF r 1(3)] by auto
    have small: "\<not> length (raw @ bytes) > max_request_size"
      using short recv_length [OF r] 1(4) by simp
    have step: "read_headers raw c = read_headers (raw @ bytes) c1"
      using None r ne small by (simp add: read_headers.simps [of raw c])
    show ?thesis
      using "1.IH" [OF None r [symmetric] ne small] 1(2,4) gaps recv_stream [OF r] recv_frame [OF r]
      by (simp add: step)
  qed
qed

lemma read_body_complete:
  assumes "n \<le> length (body @ concat (incoming c))" and "no_gaps c"
  shows "\<exists>c'. read_body n body c = (Inr (take n (body @ concat (incoming c))), c') \<and>
    accepts c' = accepts c \<and> sent c' = sent c"
  using assms
proof (induction n body c rule: read_body.induct)
  case (1 n body c)
  show ?case
  proof (cases "length body < n")
    case False
    then show ?thesis by (auto simp: read_body.simps [of n body c])
  next
    case True
    obtain bytes c1 where r: "recv (min 8192 (n - length body)) c = (bytes, c1)" by force
    have "concat (incoming c) \<noteq> []" using True 1(2) by (cases "concat (incoming c)") simp_all
    then have ne: "bytes \<noteq> []" and gaps: "no_gaps c1"
      using recv_no_gaps [OF r 1(3)] True by auto
    have step: "read_body n body c = read_body n (body @ bytes) c1"
      using True r ne by (simp add: read_body.simps [of n body c])
    show ?thesis
      using "1.IH" [OF True r [symmetric] ne] 1(2) gaps recv_stream [OF r] recv_frame [OF r]
      by (simp add: step)
  qed
qed

subsection \<open>Lines\<close>

fun join :: "string list \<Rightarrow> string" where
  "join [] = []"
| "join [l] = l"
| "join (l # m # ls) = l @ crlf @ join (m # ls)"

definition line_ok :: "string \<Rightarrow> bool" where
  "line_ok l \<longleftrightarrow> l \<noteq> [] \<and> CHR 0x0D \<notin> set l \<and> CHR 0x0A \<notin> set l"

lemma join_terminated: "ls \<noteq> [] \<Longrightarrow> concat (map (\<lambda>l. l @ crlf) ls) = join ls @ crlf"
  by (induction ls rule: join.induct) simp_all

text \<open>The empty line that ends the header is the first one.\<close>

lemma find_skip_line:
  assumes "CHR 0x0D \<notin> set l" and "x \<noteq> CHR 0x0D"
  shows "find_str (crlf @ crlf) (l @ crlf @ x # xs) =
    map_option (\<lambda>i. length l + 2 + i) (find_str (crlf @ crlf) (x # xs))"
proof -
  have "find_str (crlf @ crlf) (crlf @ x # xs) = map_option (\<lambda>i. 2 + i) (find_str (crlf @ crlf) (x # xs))"
    using assms(2) by (cases "find_str (crlf @ crlf) xs") (simp_all add: crlf_def)
  then show ?thesis
    using find_str_skip [OF assms(1), of "[CHR 0x0A, CHR 0x0D, CHR 0x0A]" "crlf @ x # xs"]
    by (cases "find_str (crlf @ crlf) (x # xs)") (simp_all add: crlf_def)
qed

lemma find_end:
  assumes "ls \<noteq> []" and "list_all line_ok ls"
  shows "find_str (crlf @ crlf) (join ls @ crlf @ crlf @ rest) = Some (length (join ls))"
  using assms
proof (induction ls rule: join.induct)
  case (2 l)
  then show ?case
    using find_str_skip [of "CHR 0x0D" l "[CHR 0x0A, CHR 0x0D, CHR 0x0A]" "crlf @ crlf @ rest"]
    by (simp add: crlf_def line_ok_def)
next
  case (3 l m ls)
  obtain x xs where x: "join (m # ls) @ crlf @ crlf @ rest = x # xs" "x \<noteq> CHR 0x0D"
    using 3(3) by (cases ls; cases m) (auto simp: line_ok_def)
  have "find_str (crlf @ crlf) (x # xs) = Some (length (join (m # ls)))"
    using 3 x(1) by simp
  moreover have "CHR 0x0D \<notin> set l" using 3(3) by (simp add: line_ok_def)
  ultimately show ?case using find_skip_line [of l x xs] x by (simp add: crlf_def)
qed simp

lemma getline_line:
  assumes "line_ok l"
  shows "getline l = Some (l, [])" and "getline (l @ crlf @ s) = Some (l @ [CHR 0x0D], s)"
proof -
  have tw: "takeWhile (\<lambda>c. c \<noteq> CHR 0x0A) l = l" and dw: "dropWhile (\<lambda>c. c \<noteq> CHR 0x0A) l = []"
    using assms by (auto simp: line_ok_def takeWhile_eq_all_conv)
  show "getline l = Some (l, [])" using assms by (simp add: getline_def tw dw line_ok_def)
  show "getline (l @ crlf @ s) = Some (l @ [CHR 0x0D], s)"
    using assms by (simp add: getline_def crlf_def line_ok_def takeWhile_append dropWhile_append tw dw)
qed

text \<open>A line of a joined text, with or without the carriage return before its end.\<close>

lemma getline_join:
  assumes "line_ok l"
  shows "\<exists>cr. set cr \<subseteq> set blanks \<and> getline (join (l # ls)) = Some (l @ cr, join ls)"
proof (cases ls)
  case Nil
  then show ?thesis using getline_line(1) [OF assms] by (intro exI [of _ "[]"]) simp
next
  case (Cons m ms)
  then show ?thesis
    using getline_line(2) [OF assms] by (intro exI [of _ "[CHR 0x0D]"]) (simp add: blanks_def)
qed

subsection \<open>Words and header lines\<close>

definition word_ok :: "string \<Rightarrow> bool" where
  "word_ok s \<longleftrightarrow> s \<noteq> [] \<and> list_all (\<lambda>c. \<not> isspace c) s"

lemma blank_isspace: "c \<in> set blanks \<Longrightarrow> isspace c"
  by (auto simp: blanks_def isspace_def)

lemma word_trimmed: "word_ok s \<Longrightarrow> trimmed s"
  using blank_isspace by (fastforce simp: word_ok_def trimmed_def list_all_iff)

lemma next_word_word:
  assumes "word_ok s" and "r = [] \<or> isspace (hd r)"
  shows "next_word (s @ r) = (s, r)"
proof -
  have d: "dropWhile isspace (s @ r) = s @ r"
    using assms(1) by (cases s) (auto simp: word_ok_def)
  have "takeWhile (\<lambda>c. \<not> isspace c) (s @ r) = s" "dropWhile (\<lambda>c. \<not> isspace c) (s @ r) = r"
    using assms by (cases r; auto simp: word_ok_def list_all_iff takeWhile_append dropWhile_append)+
  then show ?thesis by (simp add: next_word_def d)
qed

lemma next_word_space: "next_word (CHR '' '' # s) = next_word s"
  by (simp add: next_word_def isspace_def)

definition header_ok :: "string \<times> string \<Rightarrow> bool" where
  "header_ok h \<longleftrightarrow> (case h of (name, val) \<Rightarrow>
     word_ok name \<and> CHR '':'' \<notin> set name \<and> to_lower name = name \<and>
     trimmed val \<and> CHR 0x0D \<notin> set val \<and> CHR 0x0A \<notin> set val)"

definition header_text :: "string \<times> string \<Rightarrow> string" where
  "header_text h = (case h of (name, val) \<Rightarrow> name @ '': '' @ val)"

lemma header_text_line: "header_ok h \<Longrightarrow> line_ok (header_text h)"
  by (cases h) (auto simp: header_ok_def header_text_def line_ok_def word_ok_def list_all_iff isspace_def)

lemma header_line_text:
  assumes h: "header_ok (name, val)" and cr: "set cr \<subseteq> set blanks"
  shows "header_line (header_text (name, val) @ cr) acc =
    (if name = ''content-length''
     then (case stoull val of Inl e \<Rightarrow> Inl e | Inr n \<Rightarrow> Inr (upsert name val (fst acc), n))
     else Inr (upsert name val (fst acc), snd acc))"
proof -
  have n: "word_ok name" "CHR '':'' \<notin> set name" "to_lower name = name" "trimmed val"
    using h by (simp_all add: header_ok_def)
  define l where "l = name @ '':'' @ (if val = [] then [] else '' '' @ val)"
  have "hd l = hd name" "name \<noteq> []" using n(1) by (auto simp: l_def word_ok_def)
  moreover have "last l = (if val = [] then CHR '':'' else last val)" by (simp add: l_def)
  moreover have "CHR '':'' \<notin> set blanks" by (simp add: blanks_def)
  ultimately have "trimmed l"
    using word_trimmed [OF n(1)] n(4) unfolding trimmed_def by (cases "val = []") simp_all
  moreover have "header_text (name, val) @ cr = [] @ l @ (if val = [] then '' '' @ cr else cr)"
    by (simp add: header_text_def l_def)
  moreover have "set (if val = [] then '' '' @ cr else cr) \<subseteq> set blanks" using cr by (auto simp: blanks_def)
  ultimately have l: "trim (header_text (name, val) @ cr) = l"
    using trim_padded [of l "[]"] by (simp del: append_assoc)
  have c: "find_str '':'' l = Some (length name)"
    using find_str_skip [of "CHR '':''" name "[]"] n(2) by (simp add: l_def)
  have "trim (drop (length name + 1) l) = val"
    using trim_padded [OF n(4), of "'' ''" "[]"] trim_trimmed [of "[]"] by (auto simp: l_def blanks_def trimmed_def)
  moreover have "trim (take (length name) l) = name" "l \<noteq> []"
    using trim_trimmed [OF word_trimmed [OF n(1)]] by (simp_all add: l_def)
  ultimately show ?thesis using l c n(3) by (simp add: header_line_def Let_def)
qed

lemma upsert_snoc: "\<forall>k' \<in> fst ` set t. k' < k \<Longrightarrow> upsert k v t = t @ [(k, v)]"
  by (induction t) (auto simp: less_le_not_le)

lemma fold_upsert_sorted:
  "table_ok (t @ hs) \<Longrightarrow> fold (\<lambda>(name, val). upsert name val) hs t = t @ hs"
proof (induction hs arbitrary: t)
  case (Cons h hs)
  obtain name val where h: "h = (name, val)" by force
  have "upsert name val t = t @ [h]"
    using Cons.prems h by (auto simp: table_ok_def sorted_wrt_append intro!: upsert_snoc)
  then show ?case using Cons.IH [of "t @ [h]"] Cons.prems h by simp
qed simp

lemma header_lines_texts:
  assumes "list_all header_ok hs" and "\<forall>val. (''content-length'', val) \<in> set hs \<longrightarrow> stoull val = Inr k"
  shows "header_lines (join (map header_text hs)) (t, len) =
    Inr (fold (\<lambda>(name, val). upsert name val) hs t, if ''content-length'' \<in> fst ` set hs then k else len)"
  using assms
proof (induction hs arbitrary: t len)
  case Nil
  then show ?case by (simp add: header_lines.simps getline_def)
next
  case (Cons h hs)
  obtain name val where h: "h = (name, val)" by force
  obtain cr where cr: "set cr \<subseteq> set blanks"
    "getline (join (map header_text (h # hs))) = Some (header_text h @ cr, join (map header_text hs))"
    using getline_join [of "header_text h" "map header_text hs"] header_text_line [of h] Cons.prems(1) by auto
  define len' where "len' = (if name = ''content-length'' then k else len)"
  have "header_line (header_text h @ cr) (t, len) = Inr (upsert name val t, len')"
    using header_line_text [OF _ cr(1), of name val "(t, len)"] Cons.prems h by (auto simp: len'_def)
  then have "header_lines (join (map header_text (h # hs))) (t, len) =
      header_lines (join (map header_text hs)) (upsert name val t, len')"
    using cr(2) by (subst header_lines.simps) simp
  then show ?case using Cons.IH [of "upsert name val t" len'] Cons.prems h by (auto simp: len'_def)
qed

subsection \<open>Requests on the wire\<close>

definition render_request :: "http_request \<Rightarrow> string" where
  "render_request r =
     req_method r @ '' '' @ req_path r @ '' '' @ req_version r @ crlf @
     concat (map (\<lambda>h. header_text h @ crlf) (req_headers r)) @ crlf @ req_body r"

definition request_head :: "http_request \<Rightarrow> string list" where
  "request_head r = (req_method r @ '' '' @ req_path r @ '' '' @ req_version r) # map header_text (req_headers r)"

text \<open>A head that the server reads as it is meant: words, headers and their total size.\<close>

definition head_ok :: "http_request \<Rightarrow> bool" where
  "head_ok r \<longleftrightarrow>
     word_ok (req_method r) \<and> word_ok (req_path r) \<and> word_ok (req_version r) \<and>
     table_ok (req_headers r) \<and> list_all header_ok (req_headers r) \<and>
     length (join (request_head r)) + 4 + 8192 \<le> max_request_size"

text \<open>The headers announce a body of \<open>n\<close> bytes.\<close>

definition announces :: "(string, string) table \<Rightarrow> 64 word \<Rightarrow> bool" where
  "announces headers n \<longleftrightarrow>
     (case select_key ''content-length'' headers of None \<Rightarrow> n = 0 | Some val \<Rightarrow> stoull val = Inr n)"

definition well_formed_request :: "http_request \<Rightarrow> bool" where
  "well_formed_request r \<longleftrightarrow> head_ok r \<and> length (req_body r) \<le> 1024 * 1024 \<and>
     announces (req_headers r) (of_nat (length (req_body r)))"

lemma render_request_head: "render_request r = join (request_head r) @ crlf @ crlf @ req_body r"
proof -
  have "render_request r = concat (map (\<lambda>l. l @ crlf) (request_head r)) @ crlf @ req_body r"
    by (simp add: render_request_def request_head_def o_def)
  then show ?thesis using join_terminated [of "request_head r"] by (simp add: request_head_def)
qed

lemma word_newlines: "word_ok s \<Longrightarrow> CHR 0x0D \<notin> set s \<and> CHR 0x0A \<notin> set s \<and> s \<noteq> []"
  unfolding word_ok_def list_all_iff isspace_def by blast

lemma request_line_ok:
  assumes "word_ok m" "word_ok p" "word_ok v"
  shows "line_ok (m @ '' '' @ p @ '' '' @ v)" and "trimmed (m @ '' '' @ p @ '' '' @ v)"
proof -
  show "line_ok (m @ '' '' @ p @ '' '' @ v)"
    using assms [THEN word_newlines] by (simp add: line_ok_def)
  show "trimmed (m @ '' '' @ p @ '' '' @ v)"
    using word_trimmed [OF assms(1)] word_trimmed [OF assms(3)] assms
    by (simp add: trimmed_def word_ok_def)
qed

lemma request_words:
  assumes "word_ok m" "word_ok p" "word_ok v"
  shows "next_word (m @ '' '' @ p @ '' '' @ v) = (m, '' '' @ p @ '' '' @ v)"
    and "next_word ('' '' @ p @ '' '' @ v) = (p, '' '' @ v)" and "next_word ('' '' @ v) = (v, [])"
  using next_word_word [OF assms(1), of "'' '' @ p @ '' '' @ v"] next_word_word [OF assms(2), of "'' '' @ v"]
    next_word_word [OF assms(3), of "[]"]
  by (simp_all add: next_word_space isspace_def)

lemma header_lines_request:
  assumes "head_ok r" and cl: "announces (req_headers r) n"
  shows "header_lines (join (map header_text (req_headers r))) ([], 0) = Inr (req_headers r, n)"
proof -
  have r: "table_ok (req_headers r)" "list_all header_ok (req_headers r)"
    using assms(1) by (simp_all add: head_ok_def)
  have d: "distinct (map fst (req_headers r))" using r(1) by (auto simp: table_ok_def strict_sorted_iff)
  have val: "stoull val = Inr n" if "(''content-length'', val) \<in> set (req_headers r)" for val
    using cl that map_of_is_SomeI [OF d that] by (simp add: announces_def select_key_def)
  have "n = 0" if "''content-length'' \<notin> fst ` set (req_headers r)"
    using cl that by (simp add: announces_def select_key_def map_of_eq_None_iff [THEN iffD2])
  then show ?thesis
    using header_lines_texts [OF r(2), of n "[]" 0] val fold_upsert_sorted [of "[]" "req_headers r"] r(1) by auto
qed

lemma read_request_head:
  assumes r: "head_ok r" and "no_gaps c" and "concat (incoming c) = render_request r @ extra"
  shows "\<exists>raw c'. read_headers [] c = (Inr (raw, length (join (request_head r))), c') \<and>
    take (length (join (request_head r))) raw = join (request_head r) \<and>
    drop (length (join (request_head r)) + 4) raw @ concat (incoming c') = req_body r @ extra \<and>
    no_gaps c' \<and> accepts c' = accepts c \<and> sent c' = sent c"
proof -
  let ?h = "join (request_head r)"
  have "list_all line_ok (request_head r)"
    using r request_line_ok(1) header_text_line
    by (auto simp: request_head_def head_ok_def list_all_iff)
  then have "find_str (crlf @ crlf) ([] @ concat (incoming c)) = Some (length ?h)"
    using find_end [of "request_head r" "req_body r @ extra"] assms(3) by (simp add: render_request_head request_head_def)
  then obtain raw c' where c': "read_headers [] c = (Inr (raw, length ?h), c')" "length ?h + 4 \<le> length raw"
    "raw @ concat (incoming c') = [] @ concat (incoming c)" "no_gaps c'" "accepts c' = accepts c" "sent c' = sent c"
    using read_headers_found [of "[]" c] assms(2) r by (auto simp: head_ok_def)
  have raw: "raw @ concat (incoming c') = ?h @ crlf @ crlf @ req_body r @ extra"
    using c'(3) assms(3) by (simp add: render_request_head)
  have "take (length ?h) raw = take (length ?h) (raw @ concat (incoming c'))"
    "drop (length ?h + 4) raw @ concat (incoming c') = drop (length ?h + 4) (raw @ concat (incoming c'))"
    using c'(2) by simp_all
  then have "take (length ?h) raw = ?h" "drop (length ?h + 4) raw @ concat (incoming c') = req_body r @ extra"
    by (simp_all add: raw crlf_def)
  with c' show ?thesis by blast
qed

text \<open>Up to the headers, every request with a good head is read alike.\<close>

lemma read_request_start:
  assumes r: "head_ok r" and "no_gaps c" and "concat (incoming c) = render_request r @ extra"
    and n: "announces (req_headers r) n"
  shows "\<exists>start c1. start @ concat (incoming c1) = req_body r @ extra \<and> no_gaps c1 \<and>
    accepts c1 = accepts c \<and> sent c1 = sent c \<and>
    read_request (req_remote_ip r) c =
      (if n > 1024 * 1024
       then ret (Inl (HttpResponse\<lparr>resp_status := 413, resp_body := ''{\"error\":\"request body too large\"}''\<rparr>))
       else bindE (read_body (unat n) start) (\<lambda>body. ret (Inr (r\<lparr>req_body := body\<rparr>)))) c1"
proof -
  let ?h = "join (request_head r)"
  let ?first = "req_method r @ '' '' @ req_path r @ '' '' @ req_version r"
  have w: "word_ok (req_method r)" "word_ok (req_path r)" "word_ok (req_version r)"
    using r by (simp_all add: head_ok_def)
  obtain raw c1 where c1: "read_headers [] c = (Inr (raw, length ?h), c1)" "take (length ?h) raw = ?h"
    "drop (length ?h + 4) raw @ concat (incoming c1) = req_body r @ extra"
    "no_gaps c1" "accepts c1 = accepts c" "sent c1 = sent c"
    using read_request_head [OF assms(1-3)] by blast
  obtain cr where cr: "set cr \<subseteq> set blanks"
    "getline ?h = Some (?first @ cr, join (map header_text (req_headers r)))"
    using getline_join [OF request_line_ok(1) [OF w], of "map header_text (req_headers r)"]
    unfolding request_head_def by blast
  have first: "trim (?first @ cr) = ?first"
    using trim_padded [OF request_line_ok(2) [OF w], of "[]"] cr(1) by simp
  have "req_method r \<noteq> []" "req_path r \<noteq> []" using w by (simp_all add: word_ok_def)
  then have "read_request (req_remote_ip r) c =
      (if n > 1024 * 1024
       then ret (Inl (HttpResponse\<lparr>resp_status := 413, resp_body := ''{\"error\":\"request body too large\"}''\<rparr>))
       else bindE (read_body (unat n) (drop (length ?h + 4) raw)) (\<lambda>body. ret (Inr (r\<lparr>req_body := body\<rparr>)))) c1"
    using c1(1,2) cr(2) first request_words [OF w] header_lines_request [OF r n]
    by (cases r) (simp add: read_request_def bindE_def [of "read_headers []"] bindE_def [of "liftE _"] liftE_def)
  with c1 show ?thesis by blast
qed

lemma read_request_well_formed:
  assumes r: "well_formed_request r" and "no_gaps c" and "concat (incoming c) = render_request r @ extra"
  shows "\<exists>c'. read_request (req_remote_ip r) c = (Inr (Inr r), c') \<and> accepts c' = accepts c \<and> sent c' = sent c"
proof -
  let ?n = "length (req_body r)"
  have n: "?n \<le> 1024 * 1024" and r': "head_ok r" "announces (req_headers r) (of_nat ?n)"
    using r by (simp_all add: well_formed_request_def)
  obtain start c1 where c1: "start @ concat (incoming c1) = req_body r @ extra" "no_gaps c1"
    "accepts c1 = accepts c" "sent c1 = sent c"
    "read_request (req_remote_ip r) c =
      (if (of_nat ?n :: 64 word) > 1024 * 1024
       then ret (Inl (HttpResponse\<lparr>resp_status := 413, resp_body := ''{\"error\":\"request body too large\"}''\<rparr>))
       else bindE (read_body (unat (of_nat ?n :: 64 word)) start) (\<lambda>body. ret (Inr (r\<lparr>req_body := body\<rparr>)))) c1"
    using read_request_start [OF r'(1) assms(2,3) r'(2)] by blast
  have u: "unat (of_nat ?n :: 64 word) = ?n" using n by (simp add: unat_of_nat)
  then have "\<not> (of_nat ?n :: 64 word) > 1024 * 1024" using n by (simp add: word_less_nat_alt)
  moreover obtain c2 where c2: "read_body ?n start c1 = (Inr (req_body r), c2)"
    "accepts c2 = accepts c1" "sent c2 = sent c1"
    using read_body_complete [of ?n start c1] c1(1,2) by auto
  ultimately have "read_request (req_remote_ip r) c = (Inr (Inr r), c2)"
    using c1(5) u by (simp add: bindE_def ret_def)
  then show ?thesis using c1(3,4) c2(2,3) by auto
qed

end
