(* ===== verification/Kv_Service.thy ===== *)
theory Kv_Service
  imports Common
begin

text \<open>
  The contract of a replicated key-value service, as its clients rely on it. The shard, the cluster
  of shards and the gateway in front of them all offer \<open>put\<close>, \<open>erase\<close> and \<open>get\<close> next to operator
  actions, and all promise the same four laws. What follows for arbitrary sequences of calls is
  proved here once.
\<close>

datatype 'e call = Put_call string string | Erase_call string | Get_call string | Admin_call 'e

text \<open>Running calls one after the other, with the answers in order.\<close>

fun run_calls ::
    "(string \<Rightarrow> string \<Rightarrow> ('s, operation_result) op) \<Rightarrow> (string \<Rightarrow> ('s, operation_result) op) \<Rightarrow>
     (string \<Rightarrow> ('s, operation_result) op) \<Rightarrow> ('e \<Rightarrow> ('s, bool) op) \<Rightarrow>
     'e call list \<Rightarrow> ('s, (operation_result + bool) list) op" where
  "run_calls p e g a [] = ret []"
| "run_calls p e g a (c # cs) =
     bindE (case c of
         Put_call k v \<Rightarrow> bindE (p k v) (\<lambda>r. ret (Inl r))
       | Erase_call k \<Rightarrow> bindE (e k) (\<lambda>r. ret (Inl r))
       | Get_call k \<Rightarrow> bindE (g k) (\<lambda>r. ret (Inl r))
       | Admin_call x \<Rightarrow> bindE (a x) (\<lambda>b. ret (Inr b))) (\<lambda>x.
     bindE (run_calls p e g a cs) (\<lambda>xs. ret (x # xs)))"

text \<open>What a client may conclude from an answer: only acknowledged writes change an entry.\<close>

definition learn :: "(string \<Rightarrow> 'k) \<Rightarrow> 'e call \<times> (operation_result + bool) \<Rightarrow> ('k \<Rightarrow> string option) \<Rightarrow> 'k \<Rightarrow> string option" where
  "learn entry = (\<lambda>(c, x) m.
    (case (c, x) of
       (Put_call k v, Inl r) \<Rightarrow> if res_ok r then m(entry k \<mapsto> v) else m
     | (Erase_call k, Inl r) \<Rightarrow> if res_ok r then m(entry k := None) else m
     | _ \<Rightarrow> m))"

text \<open>The answer to a read in a state that holds \<open>v\<close> for the key, if it is not refused.\<close>

definition read_answer :: "string option \<Rightarrow> operation_result \<Rightarrow> bool" where
  "read_answer ov r \<longleftrightarrow> (case ov of
     Some v \<Rightarrow> res_ok r \<and> res_status r = 200 \<and> res_value r = v
   | None \<Rightarrow> \<not> res_ok r \<and> res_status r = 404)"

definition refused :: "operation_result \<Rightarrow> bool" where
  "refused r \<longleftrightarrow> \<not> res_ok r \<and> res_status r = 503"

locale kv_service =
  fixes put :: "string \<Rightarrow> string \<Rightarrow> ('s, operation_result) op"
    and erase :: "string \<Rightarrow> ('s, operation_result) op"
    and get :: "string \<Rightarrow> ('s, operation_result) op"
    and admin :: "'e \<Rightarrow> ('s, bool) op"
    and entry :: "string \<Rightarrow> 'k"
    and holds :: "'s \<Rightarrow> ('k \<Rightarrow> string option) \<Rightarrow> bool"
  assumes put_law: "holds s m \<Longrightarrow> \<exists>r s'. put k v s = (Inr r, s') \<and>
      (res_ok r \<and> res_status r = 201 \<and> holds s' (m(entry k \<mapsto> v)) \<or> refused r \<and> holds s' m)"
    and erase_law: "holds s m \<Longrightarrow> \<exists>r s'. erase k s = (Inr r, s') \<and>
      (res_ok r \<and> res_status r = 200 \<and> holds s' (m(entry k := None)) \<or> refused r \<and> holds s' m)"
    and get_law: "holds s m \<Longrightarrow> \<exists>r s'. get k s = (Inr r, s') \<and> holds s' m \<and>
      (read_answer (m (entry k)) r \<or> refused r)"
    and admin_law: "holds s m \<Longrightarrow> \<exists>b s'. admin x s = (Inr b, s') \<and> holds s' m"
begin

lemma call_learns:
  assumes "holds s m"
  shows "\<exists>x s'. (case c of
         Put_call k v \<Rightarrow> bindE (put k v) (\<lambda>r. ret (Inl r))
       | Erase_call k \<Rightarrow> bindE (erase k) (\<lambda>r. ret (Inl r))
       | Get_call k \<Rightarrow> bindE (get k) (\<lambda>r. ret (Inl r))
       | Admin_call x \<Rightarrow> bindE (admin x) (\<lambda>b. ret (Inr b))) s = (Inr x, s') \<and>
    holds s' (learn entry (c, x) m)"
proof (cases c)
  case (Put_call k v)
  then show ?thesis
    using put_law [OF assms, of k v] by (auto simp: bindE_def ret_def learn_def refused_def)
next
  case (Erase_call k)
  then show ?thesis
    using erase_law [OF assms, of k] by (auto simp: bindE_def ret_def learn_def refused_def)
next
  case (Get_call k)
  then show ?thesis
    using get_law [OF assms, of k] by (auto simp: bindE_def ret_def learn_def)
next
  case (Admin_call x)
  then show ?thesis
    using admin_law [OF assms, of x] by (auto simp: bindE_def ret_def learn_def)
qed

text \<open>Every call returns, and the state holds what the acknowledgements say.\<close>

lemma run_learns:
  "holds s m \<Longrightarrow> \<exists>xs s'. run_calls put erase get admin cs s = (Inr xs, s') \<and>
    holds s' (fold (learn entry) (zip cs xs) m)"
proof (induction cs arbitrary: s m)
  case Nil
  then show ?case by (simp add: ret_def)
next
  case (Cons c cs)
  obtain x s1 where 1: "(case c of
         Put_call k v \<Rightarrow> bindE (put k v) (\<lambda>r. ret (Inl r))
       | Erase_call k \<Rightarrow> bindE (erase k) (\<lambda>r. ret (Inl r))
       | Get_call k \<Rightarrow> bindE (get k) (\<lambda>r. ret (Inl r))
       | Admin_call x \<Rightarrow> bindE (admin x) (\<lambda>b. ret (Inr b))) s = (Inr x, s1)"
    "holds s1 (learn entry (c, x) m)"
    using call_learns [OF Cons.prems] by blast
  obtain xs s' where "run_calls put erase get admin cs s1 = (Inr xs, s')"
    "holds s' (fold (learn entry) (zip cs xs) (learn entry (c, x) m))"
    using Cons.IH [OF 1(2)] by blast
  then show ?case
    using 1(1) by (intro exI [of _ "x # xs"] exI [of _ s']) (simp add: bindE_def ret_def)
qed

lemma reads_tell_acknowledged:
  assumes "holds s m"
  shows "\<exists>xs s'. run_calls put erase get admin cs s = (Inr xs, s') \<and>
    (\<forall>k. \<exists>r s''. get k s' = (Inr r, s'') \<and>
      (read_answer (fold (learn entry) (zip cs xs) m (entry k)) r \<or> refused r))"
  using run_learns [OF assms, of cs] get_law by blast

end

end
