(* ===== verification/Shard_Service.thy ===== *)
theory Shard_Service
  imports Shard_Spec Kv_Service
begin

text \<open>A shard offers the key-value contract; keys are told apart up to their first NUL byte.\<close>

definition shard_holds :: "shard \<Rightarrow> (string \<Rightarrow> string option) \<Rightarrow> bool" where
  "shard_holds s m \<longleftrightarrow> (\<exists>sv. implements s sv \<and> content sv = m)"

datatype shard_action = Fail_replica string | Recover_replica string | Elect_leader

definition shard_admin :: "shard_action \<Rightarrow> (shard, bool) op" where
  "shard_admin x =
    (case x of
       Fail_replica rid \<Rightarrow> shard_fail_replica rid
     | Recover_replica rid \<Rightarrow> shard_recover_replica rid
     | Elect_leader \<Rightarrow> shard_elect_leader)"

lemma serve_shard:
  "serve (Put k v) s = (Inr a, s') \<Longrightarrow> \<exists>r. a = Inl r \<and> shard_put k v s = (Inr r, s')"
  "serve (Erase k) s = (Inr a, s') \<Longrightarrow> \<exists>r. a = Inl r \<and> shard_erase k s = (Inr r, s')"
  "serve (Get k) s = (Inr a, s') \<Longrightarrow> \<exists>r. a = Inl r \<and> shard_get k s = (Inr r, s')"
  "serve (Fail rid) s = (Inr a, s') \<Longrightarrow> \<exists>b. a = Inr b \<and> shard_fail_replica rid s = (Inr b, s')"
  "serve (Recover rid) s = (Inr a, s') \<Longrightarrow> \<exists>b. a = Inr b \<and> shard_recover_replica rid s = (Inr b, s')"
  "serve Elect s = (Inr a, s') \<Longrightarrow> \<exists>b. a = Inr b \<and> shard_elect_leader s = (Inr b, s')"
  by (auto simp: serve_def bindE_def ret_def split: prod.splits sum.splits)

lemma shard_step:
  assumes "shard_holds s m"
  obtains a s' sv sv' where "serve q s = (Inr a, s')" "spec_step q a sv sv'" "content sv = m"
    "shard_holds s' (content sv')"
  using assms serve_refines unfolding shard_holds_def refines_def by metis

interpretation shard_kv: kv_service shard_put shard_erase shard_get shard_admin c_str shard_holds
proof unfold_locales
  fix s m k v
  assume s: "shard_holds s m"
  show "\<exists>r s'. shard_put k v s = (Inr r, s') \<and>
      (res_ok r \<and> res_status r = 201 \<and> shard_holds s' (m(c_str k \<mapsto> v)) \<or> refused r \<and> shard_holds s' m)"
  proof (rule shard_step [OF s, of "Put k v"])
    fix a s' sv sv'
    assume "serve (Put k v) s = (Inr a, s')" "spec_step (Put k v) a sv sv'" "content sv = m" "shard_holds s' (content sv')"
    then show ?thesis
      by (auto dest!: serve_shard(1) elim!: spec_step_PutE simp: success_def refusal_def refused_def)
  qed
  show "\<exists>r s'. shard_erase k s = (Inr r, s') \<and>
      (res_ok r \<and> res_status r = 200 \<and> shard_holds s' (m(c_str k := None)) \<or> refused r \<and> shard_holds s' m)"
  proof (rule shard_step [OF s, of "Erase k"])
    fix a s' sv sv'
    assume "serve (Erase k) s = (Inr a, s')" "spec_step (Erase k) a sv sv'" "content sv = m" "shard_holds s' (content sv')"
    then show ?thesis
      by (auto dest!: serve_shard(2) elim!: spec_step_EraseE simp: success_def refusal_def refused_def)
  qed
  show "\<exists>r s'. shard_get k s = (Inr r, s') \<and> shard_holds s' m \<and> (read_answer (m (c_str k)) r \<or> refused r)"
  proof (rule shard_step [OF s, of "Get k"])
    fix a s' sv sv'
    assume "serve (Get k) s = (Inr a, s')" "spec_step (Get k) a sv sv'" "content sv = m" "shard_holds s' (content sv')"
    then show ?thesis
      by (auto dest!: serve_shard(3) elim!: spec_step_GetE simp: success_def refusal_def refused_def read_answer_def)
  qed
next
  fix s m x
  assume s: "shard_holds s m"
  show "\<exists>b s'. shard_admin x s = (Inr b, s') \<and> shard_holds s' m"
  proof (cases x)
    case (Fail_replica rid)
    show ?thesis
    proof (rule shard_step [OF s, of "Fail rid"])
      fix a s' sv sv'
      assume "serve (Fail rid) s = (Inr a, s')" "spec_step (Fail rid) a sv sv'" "content sv = m" "shard_holds s' (content sv')"
      then show ?thesis
        by (auto dest!: serve_shard(4) elim!: spec_step_FailE simp: shard_admin_def Fail_replica)
    qed
  next
    case (Recover_replica rid)
    show ?thesis
    proof (rule shard_step [OF s, of "Recover rid"])
      fix a s' sv sv'
      assume "serve (Recover rid) s = (Inr a, s')" "spec_step (Recover rid) a sv sv'" "content sv = m" "shard_holds s' (content sv')"
      then show ?thesis
        by (auto dest!: serve_shard(5) elim!: spec_step_RecoverE simp: shard_admin_def Recover_replica)
    qed
  next
    case Elect_leader
    show ?thesis
    proof (rule shard_step [OF s, of Elect])
      fix a s' sv sv'
      assume "serve Elect s = (Inr a, s')" "spec_step Elect a sv sv'" "content sv = m" "shard_holds s' (content sv')"
      then show ?thesis
        by (auto dest!: serve_shard(6) elim!: spec_step_ElectE simp: shard_admin_def Elect_leader)
    qed
  qed
qed

end
