(* ===== verification/Cluster_Props.thy ===== *)
theory Cluster_Props
  imports Cluster Shard_Service
begin

text \<open>
  The cluster offers the key-value contract of its shards: an entry is a shard together with the
  key up to its first NUL byte. Shards do not disturb each other. For keys without NUL bytes the
  content of the cluster is one map from keys to values.
\<close>

subsection \<open>The cluster as a service\<close>

lemma implements_metrics [simp]: "implements (s\<lparr>shard_metrics := x\<rparr>) m = implements s m"
proof -
  have inv: "shard_inv (s\<lparr>shard_metrics := x\<rparr>) g = shard_inv s g" for g
    by (simp add: shard_inv_def ids_ok_def roles_ok_def holders_def leader_ok_def)
  have "service_of (s\<lparr>shard_metrics := x\<rparr>) g = service_of s g" for g
    by (simp add: service_of_def online_ids_def)
  with inv show ?thesis by (simp add: implements_def)
qed

lemma shard_holds_metrics [simp]: "shard_holds (s\<lparr>shard_metrics := x\<rparr>) m = shard_holds s m"
  by (simp add: shard_holds_def)

definition cluster_holds :: "nat \<Rightarrow> cluster \<Rightarrow> (nat \<times> string \<Rightarrow> string option) \<Rightarrow> bool" where
  "cluster_holds n c m \<longleftrightarrow> length (shards c) = n \<and> 0 < n \<and>
     (\<forall>i < n. shard_holds (shards c ! i) (\<lambda>k. m (i, k)))"

definition route :: "nat \<Rightarrow> string \<Rightarrow> nat \<times> string" where
  "route n k = (shard_for_key n k, c_str k)"

datatype cluster_action = Shard_action nat shard_action

definition cluster_admin :: "cluster_action \<Rightarrow> (cluster, bool) op" where
  "cluster_admin a =
    (case a of Shard_action sid x \<Rightarrow>
      (case x of
         Fail_replica rid \<Rightarrow> cluster_fail_replica sid rid
       | Recover_replica rid \<Rightarrow> cluster_recover_replica sid rid
       | Elect_leader \<Rightarrow> cluster_elect sid))"

lemma shard_for_key_less [simp]: "0 < n \<Longrightarrow> shard_for_key n k < n"
  by (simp add: shard_for_key_def)

lemma route_update:
  "m(route n k := v) = (\<lambda>(j, x). if j = shard_for_key n k
     then ((\<lambda>x. m (shard_for_key n k, x))(c_str k := v)) x else m (j, x))"
  by (auto simp: route_def fun_eq_iff)

lemma same_update: "m = (\<lambda>(j, x). if j = i then m (i, x) else m (j, x))"
  by (auto simp: fun_eq_iff)

text \<open>One shard takes a step, the others stay.\<close>

lemma on_shard_step:
  assumes c: "cluster_holds n c m" and i: "i < n"
    and step: "f ((shards c ! i)\<lparr>shard_metrics := cluster_metrics c\<rparr>) = (Inr x, s')" and s': "shard_holds s' m'"
    and m2: "m2 = (\<lambda>(j, k). if j = i then m' k else m (j, k))"
  shows "\<exists>c'. on_shard i f c = (Inr x, c') \<and> cluster_holds n c' m2 \<and> (\<forall>j. j \<noteq> i \<longrightarrow> shards c' ! j = shards c ! j)"
proof -
  let ?c = "c\<lparr>shards := (shards c)[i := s'], cluster_metrics := shard_metrics s'\<rparr>"
  have "shard_holds (shards ?c ! j) (\<lambda>k. m2 (j, k))" if "j < n" for j
    using that c i s' m2 by (auto simp: cluster_holds_def nth_list_update)
  then have "cluster_holds n ?c m2" using c by (simp add: cluster_holds_def)
  moreover have "on_shard i f c = (Inr x, ?c)" using step by (simp add: on_shard_def zoom_def)
  ultimately show ?thesis using i c by (intro exI [of _ ?c]) (auto simp: cluster_holds_def)
qed

lemma cluster_shard:
  "cluster_holds n c m \<Longrightarrow> i < n \<Longrightarrow>
    shard_holds ((shards c ! i)\<lparr>shard_metrics := cluster_metrics c\<rparr>) (\<lambda>k. m (i, k))"
  by (simp add: cluster_holds_def)

lemma cluster_holdsD: "cluster_holds n c m \<Longrightarrow> length (shards c) = n \<and> 0 < n"
  by (simp add: cluster_holds_def)

lemma bind_shards: "bindE (getE shards) f c = f (shards c) c"
  by (simp add: bindE_def getE_def)

lemma cluster_data_laws:
  assumes c: "cluster_holds n c m"
  shows "\<exists>r c'. cluster_put k v c = (Inr r, c') \<and>
      (res_ok r \<and> res_status r = 201 \<and> cluster_holds n c' (m(route n k \<mapsto> v)) \<or> refused r \<and> cluster_holds n c' m)"
    and "\<exists>r c'. cluster_erase k c = (Inr r, c') \<and>
      (res_ok r \<and> res_status r = 200 \<and> cluster_holds n c' (m(route n k := None)) \<or> refused r \<and> cluster_holds n c' m)"
    and "\<exists>r c'. cluster_get k c = (Inr r, c') \<and> cluster_holds n c' m \<and> (read_answer (m (route n k)) r \<or> refused r)"
proof -
  note n = cluster_holdsD [OF c]
  let ?i = "shard_for_key n k"
  let ?s = "(shards c ! ?i)\<lparr>shard_metrics := cluster_metrics c\<rparr>"
  have i: "?i < n" using n by simp
  note s = cluster_shard [OF c i]
  obtain r s' where put: "shard_put k v ?s = (Inr r, s')"
    "res_ok r \<and> res_status r = 201 \<and> shard_holds s' ((\<lambda>x. m (?i, x))(c_str k \<mapsto> v)) \<or> refused r \<and> shard_holds s' (\<lambda>x. m (?i, x))"
    using shard_kv.put_law [OF s] by blast
  note put_ok = on_shard_step [where f = "shard_put k v", OF c i put(1) _ route_update]
    and put_no = on_shard_step [where f = "shard_put k v", OF c i put(1) _ same_update]
  from put(2) show "\<exists>r c'. cluster_put k v c = (Inr r, c') \<and>
      (res_ok r \<and> res_status r = 201 \<and> cluster_holds n c' (m(route n k \<mapsto> v)) \<or> refused r \<and> cluster_holds n c' m)"
    unfolding cluster_put_def bind_shards using put_ok put_no n by metis
  obtain r s' where erase: "shard_erase k ?s = (Inr r, s')"
    "res_ok r \<and> res_status r = 200 \<and> shard_holds s' ((\<lambda>x. m (?i, x))(c_str k := None)) \<or> refused r \<and> shard_holds s' (\<lambda>x. m (?i, x))"
    using shard_kv.erase_law [OF s] by blast
  note erase_ok = on_shard_step [where f = "shard_erase k", OF c i erase(1) _ route_update]
    and erase_no = on_shard_step [where f = "shard_erase k", OF c i erase(1) _ same_update]
  from erase(2) show "\<exists>r c'. cluster_erase k c = (Inr r, c') \<and>
      (res_ok r \<and> res_status r = 200 \<and> cluster_holds n c' (m(route n k := None)) \<or> refused r \<and> cluster_holds n c' m)"
    unfolding cluster_erase_def bind_shards using erase_ok erase_no n by metis
  obtain r s' where get: "shard_get k ?s = (Inr r, s')" "shard_holds s' (\<lambda>x. m (?i, x))"
    "read_answer (m (?i, c_str k)) r \<or> refused r"
    using shard_kv.get_law [OF s, of k] by blast
  then show "\<exists>r c'. cluster_get k c = (Inr r, c') \<and> cluster_holds n c' m \<and> (read_answer (m (route n k)) r \<or> refused r)"
    using on_shard_step [where f = "shard_get k", OF c i get(1,2) same_update] n
    unfolding cluster_get_def bind_shards route_def by metis
qed

lemma cluster_admin_law:
  assumes c: "cluster_holds n c m"
  shows "\<exists>b c'. cluster_admin a c = (Inr b, c') \<and> cluster_holds n c' m"
proof (cases a)
  case (Shard_action i x)
  note n = cluster_holdsD [OF c]
  show ?thesis
  proof (cases "i < n")
    case True
    let ?s = "(shards c ! i)\<lparr>shard_metrics := cluster_metrics c\<rparr>"
    obtain b s' where "shard_admin x ?s = (Inr b, s')" "shard_holds s' (\<lambda>k. m (i, k))"
      using shard_kv.admin_law [OF cluster_shard [OF c True]] by blast
    then have "\<exists>c'. on_shard i (shard_admin x) c = (Inr b, c') \<and> cluster_holds n c' m"
      using on_shard_step [where f = "shard_admin x", OF c True _ _ same_update] by blast
    moreover have "cluster_admin a c = on_shard i (shard_admin x) c"
      using True n Shard_action by (cases x) (simp_all add: cluster_admin_def bind_shards shard_admin_def
          cluster_fail_replica_def cluster_recover_replica_def cluster_elect_def)
    ultimately show ?thesis by auto
  next
    case False
    then have "cluster_admin a c = (Inr False, c)"
      using n Shard_action by (cases x) (simp_all add: cluster_admin_def bind_shards ret_def
          cluster_fail_replica_def cluster_recover_replica_def cluster_elect_def)
    then show ?thesis using c by blast
  qed
qed

interpretation cluster_kv: kv_service cluster_put cluster_erase cluster_get cluster_admin "route n" "cluster_holds n" for n
  by unfold_locales (rule cluster_data_laws cluster_admin_law; assumption)+

subsection \<open>Starting a cluster\<close>

lemma open_shards_fresh:
  assumes "0 < r"
  shows "\<exists>ss m'. open_shards r (\<lambda>_. None) (\<lambda>_. []) now is m = Inr (ss, m') \<and> length ss = length is \<and>
    (\<forall>s \<in> set ss. shard_holds s Map.empty)"
proof (induction "is" arbitrary: m)
  case Nil
  then show ?case by simp
next
  case (Cons i js)
  obtain s where "Shard i r (\<lambda>_. None) (\<lambda>_. []) now m = Inr s"
    "implements s \<lparr>content = Map.empty, members = map (replica_name i) [0..<r],
      up = set (map (replica_name i) [0..<r]), leader = leader_id s\<rparr>"
    using fresh_implements [OF assms] by blast
  then have s: "Shard i r (\<lambda>_. None) (\<lambda>_. []) now m = Inr s" "shard_holds s Map.empty"
    by (auto simp: shard_holds_def)
  then show ?case using Cons.IH [of "shard_metrics s"] by auto
qed

lemma Cluster_fresh:
  assumes "0 < n" and "0 < r"
  shows "\<exists>c. Cluster n r None (\<lambda>_. None) (\<lambda>_. []) now m = Inr c \<and> cluster_holds n c Map.empty"
proof -
  obtain ss m' where "open_shards r (\<lambda>_. None) (\<lambda>_. []) now [0..<n] m = Inr (ss, m')"
    "length ss = n" "\<forall>s \<in> set ss. shard_holds s Map.empty"
    using open_shards_fresh [OF assms(2), of now "[0..<n]" m] by auto
  then show ?thesis using assms(1) by (auto simp: Cluster_def cluster_holds_def)
qed

subsection \<open>Keys without NUL bytes\<close>

definition nul_free :: "string \<Rightarrow> bool" where
  "nul_free k \<longleftrightarrow> CHR 0x00 \<notin> set k"

fun nul_free_call :: "'e call \<Rightarrow> bool" where
  "nul_free_call (Put_call k v) = nul_free k"
| "nul_free_call (Erase_call k) = nul_free k"
| "nul_free_call c = True"

lemma route_inj: "nul_free k \<Longrightarrow> nul_free k' \<Longrightarrow> route n k = route n k' \<longleftrightarrow> k = k'"
  by (auto simp: route_def nul_free_def c_str_id)

lemma learn_route:
  "nul_free_call c \<Longrightarrow> \<forall>k. nul_free k \<longrightarrow> m (route n k) = m' k \<Longrightarrow>
    \<forall>k. nul_free k \<longrightarrow> learn (route n) (c, x) m (route n k) = learn (\<lambda>k. k) (c, x) m' k"
  by (cases c; cases x) (auto simp: learn_def route_inj)

lemma fold_learn_route:
  "\<forall>c \<in> set cs. nul_free_call c \<Longrightarrow> \<forall>k. nul_free k \<longrightarrow> m (route n k) = m' k \<Longrightarrow> nul_free k \<Longrightarrow>
    fold (learn (route n)) (zip cs xs) m (route n k) = fold (learn (\<lambda>k. k)) (zip cs xs) m' k"
proof (induction cs arbitrary: xs m m')
  case (Cons c cs)
  show ?case
  proof (cases xs)
    case (Cons x ys)
    have "\<forall>k. nul_free k \<longrightarrow> learn (route n) (c, x) m (route n k) = learn (\<lambda>k. k) (c, x) m' k"
      using Cons.prems by (intro learn_route) auto
    then show ?thesis
      using Cons.IH [of "learn (route n) (c, x) m" "learn (\<lambda>k. k) (c, x) m'" ys] Cons.prems Cons by simp
  qed (use Cons.prems in simp)
qed simp

text \<open>
  C2. The cluster is one key-value store: start any number of shards of any number of replicas on an
  empty disk, and send it any sequence of puts, deletes and gets on keys without NUL bytes, mixed with
  failures, recoveries and elections on any shard. Every call returns, and a read of any such key that
  follows is refused with 503 or answers exactly what the acknowledged writes to this key say.
\<close>

theorem cluster_reads_acknowledged:
  assumes "0 < n" and "0 < r" and "\<forall>c \<in> set cs. nul_free_call c"
  shows "\<exists>c xs c'. Cluster n r None (\<lambda>_. None) (\<lambda>_. []) now mt = Inr c \<and>
    run_calls cluster_put cluster_erase cluster_get cluster_admin cs c = (Inr xs, c') \<and>
    (\<forall>k. nul_free k \<longrightarrow> (\<exists>a c''. cluster_get k c' = (Inr a, c'') \<and>
      (read_answer (fold (learn (\<lambda>k. k)) (zip cs xs) Map.empty k) a \<or> refused a)))"
proof -
  obtain c where c: "Cluster n r None (\<lambda>_. None) (\<lambda>_. []) now mt = Inr c" "cluster_holds n c Map.empty"
    using Cluster_fresh [OF assms(1,2)] by blast
  obtain xs c' where r: "run_calls cluster_put cluster_erase cluster_get cluster_admin cs c = (Inr xs, c')"
    "\<forall>k. \<exists>a c''. cluster_get k c' = (Inr a, c'') \<and>
      (read_answer (fold (learn (route n)) (zip cs xs) Map.empty (route n k)) a \<or> refused a)"
    using cluster_kv.reads_tell_acknowledged [OF c(2), of cs] by blast
  have "fold (learn (route n)) (zip cs xs) Map.empty (route n k) = fold (learn (\<lambda>k. k)) (zip cs xs) Map.empty k"
    if "nul_free k" for k
    using assms(3) that by (intro fold_learn_route) auto
  then show ?thesis using c(1) r by metis
qed

theorem cluster_reads_acknowledged_witness:
  "\<exists>c xs c'. Cluster 2 3 None (\<lambda>_. None) (\<lambda>_. []) 0 Metrics = Inr c \<and>
    run_calls cluster_put cluster_erase cluster_get cluster_admin
      [Put_call ''a'' ''1'', Admin_call (Shard_action 0 (Fail_replica ''s0-r0'')), Put_call ''b'' ''2'', Erase_call ''a''] c
      = (Inr xs, c') \<and>
    (\<forall>k. nul_free k \<longrightarrow> (\<exists>a c''. cluster_get k c' = (Inr a, c'') \<and>
      (read_answer (fold (learn (\<lambda>k. k)) (zip [Put_call ''a'' ''1'', Admin_call (Shard_action 0 (Fail_replica ''s0-r0'')),
         Put_call ''b'' ''2'', Erase_call ''a''] xs) Map.empty k) a \<or> refused a)))"
  by (rule cluster_reads_acknowledged) (simp_all add: nul_free_def)


lemma on_shard_frame: "j \<noteq> i \<Longrightarrow> shards (snd (on_shard i f c)) ! j = shards c ! j"
  by (simp add: on_shard_def zoom_def split: prod.splits)



end
