(* ===== verification/Gateway_Props.thy ===== *)
theory Gateway_Props
  imports Gateway Cluster_Props
begin

text \<open>
  The gateway in front of the cluster: requests without the token never reach the cluster; the retry
  loop ends for every retry count but the largest; and what a client reads and writes through the
  gateway is what the cluster holds.
\<close>

subsection \<open>Frames\<close>

lemma wp_now [simp]:
  "wp now Q E g = Q (time (clk g) + (case ticks (clk g) of [] \<Rightarrow> 0 | d # _ \<Rightarrow> int d))
     (g\<lparr>clk := \<lparr>time = time (clk g) + (case ticks (clk g) of [] \<Rightarrow> 0 | d # _ \<Rightarrow> int d),
        ticks = tl (ticks (clk g))\<rparr>\<rparr>)"
  by (simp add: now_def wp_def Let_def)

lemma wp_count_gateway [simp]:
  "wp (count_gateway f) Q E g = Q () (g\<lparr>gw_cluster := (gw_cluster g)\<lparr>cluster_metrics := f (cluster_metrics (gw_cluster g))\<rparr>\<rparr>)"
  by (simp add: count_gateway_def on_cluster_def)

lemma wp_sleep_for [simp]:
  "wp (sleep_for d) Q E g = Q () (g\<lparr>clk := (clk g)\<lparr>time := time (clk g) + d\<rparr>\<rparr>)"
  by (simp add: sleep_for_def)

lemma wp_breaker_for:
  "i < length (breakers g) \<Longrightarrow> wp (breaker_for i f) Q E g =
    Q (fst (f (breakers g ! i))) (g\<lparr>breakers := (breakers g)[i := snd (f (breakers g ! i))]\<rparr>)"
  by (simp add: breaker_for_def split: prod.splits)

lemma wp_finish:
  "\<exists>resp' g'. finish started resp g = (Inr resp', g') \<and> resp_status resp' = resp_status resp \<and>
    resp_body resp' = resp_body resp \<and> breakers g' = breakers g \<and> buckets g' = buckets g \<and>
    max_retries g' = max_retries g \<and> shards (gw_cluster g') = shards (gw_cluster g)"
proof -
  have "runs (finish started resp) (\<lambda>resp' g'. resp_status resp' = resp_status resp \<and>
    resp_body resp' = resp_body resp \<and> breakers g' = breakers g \<and> buckets g' = buckets g \<and>
    max_retries g' = max_retries g \<and> shards (gw_cluster g') = shards (gw_cluster g)) g"
    by (simp add: finish_def Let_def)
  then show ?thesis by (simp add: runs_iff)
qed

lemma cluster_holds_shards:
  "shards c = shards c' \<Longrightarrow> cluster_holds n c m = cluster_holds n c' m"
  by (simp add: cluster_holds_def)

subsection \<open>Authentication\<close>

abbreviation bearer :: "http_request \<Rightarrow> string option" where
  "bearer request \<equiv> select_key ''authorization'' (req_headers request)"

lemma authorized_iff: "authorized request g \<longleftrightarrow> bearer request = Some (''Bearer '' @ api_key g)"
  by (simp add: authorized_def split: option.splits)

text \<open>
  C21. A request without the right bearer token, on any path but the two public ones, is answered with
  401, under every schedule of engine errors: the call returns, and no shard, no token bucket and no
  circuit breaker has changed.
\<close>

theorem unauthorized_touches_nothing:
  assumes "bearer request \<noteq> Some (''Bearer '' @ api_key g)" and "req_path request \<notin> {''/healthz'', ''/metrics''}"
  shows "\<exists>resp g'. handle rnd request g = Some (Inr resp, g') \<and> resp_status resp = 401 \<and>
    shards (gw_cluster g') = shards (gw_cluster g) \<and> buckets g' = buckets g \<and> breakers g' = breakers g"
proof -
  let ?body = "''{\"error\":\"missing or invalid bearer token\"}''"
  have "authorized request (g\<lparr>clk := ck\<rparr>) = authorized request g" for ck
    by (simp add: authorized_iff)
  then have "runs (bindE now (\<lambda>started. bindE (admit rnd request) (\<lambda>x. ret (started, x))))
      (\<lambda>x g1. snd x = Inl (json_response 401 ?body) \<and> shards (gw_cluster g1) = shards (gw_cluster g) \<and>
        buckets g1 = buckets g \<and> breakers g1 = breakers g) g"
    using assms by (simp add: admit_def authorized_iff)
  then obtain started g1 where 1: "bindE now (\<lambda>started. bindE (admit rnd request) (\<lambda>x. ret (started, x))) g =
      (Inr (started, Inl (json_response 401 ?body)), g1)"
    "shards (gw_cluster g1) = shards (gw_cluster g)" "buckets g1 = buckets g" "breakers g1 = breakers g"
    by (auto simp: runs_iff)
  then show ?thesis
    using wp_finish [of started "json_response 401 ?body" g1] by (auto simp: handle_def json_response_def)
qed

subsection \<open>The retry loop\<close>

lemma wp_after_failure:
  assumes "i < length (breakers g)"
  shows "\<exists>g'. after_failure i attempt g = (Inr (), g') \<and> length (breakers g') = length (breakers g) \<and>
    max_retries g' = max_retries g \<and> shards (gw_cluster g') = shards (gw_cluster g)"
proof -
  have "runs (after_failure i attempt) (\<lambda>_ g'. length (breakers g') = length (breakers g) \<and>
    max_retries g' = max_retries g \<and> shards (gw_cluster g') = shards (gw_cluster g)) g"
    using assms by (simp add: after_failure_def breaker_fails_def wp_breaker_for)
  then show ?thesis by (auto simp: runs_iff)
qed

lemma word_succ:
  fixes a n :: "64 word"
  assumes "a \<le> n" and "n \<noteq> - 1"
  shows "unat (a + 1) = unat a + 1"
proof -
  have "a \<noteq> - 1" using assms word_order.extremum_uniqueI [of n] by auto
  then have "unat a \<noteq> unat (- 1 :: 64 word)" by (simp only: word_unat_eq_iff not_False_eq_True)
  then have "unat a \<noteq> 2 ^ 64 - 1" by (simp add: unsigned_minus_1_eq_mask mask_eq_exp_minus_1)
  then have "unat a + 1 < 2 ^ 64" using unsigned_less [of a, where 'a = nat] by simp
  then show ?thesis by (simp add: unat_word_ariths)
qed

text \<open>
  The loop on a cluster where the call behaves: from a state in \<open>H\<close> it is refused and stays in \<open>H\<close>,
  or it gets a result below 500 and a state in \<open>L\<close> of the result. For every retry count but the
  largest the loop returns, and ends in one of these two ways.
\<close>

lemma attempts_return:
  assumes call: "\<And>c. H c \<Longrightarrow> \<exists>r c'. call c = (Inr r, c') \<and>
      (refused r \<and> H c' \<or> res_status r < 500 \<and> L r c')"
    and frame: "\<And>c c'. shards c = shards c' \<Longrightarrow> H c = H c'"
  shows "max_retries g = n \<Longrightarrow> n \<noteq> - 1 \<Longrightarrow> a \<le> n \<Longrightarrow> i < length (breakers g) \<Longrightarrow> H (gw_cluster g) \<Longrightarrow>
    \<exists>r g'. attempts call i a g = Some (Inr r, g') \<and>
      (refused r \<and> H (gw_cluster g') \<or> res_status r < 500 \<and> L r (gw_cluster g'))"
proof (induction "unat n - unat a" arbitrary: a g rule: less_induct)
  case less
  obtain r c' where c': "call (gw_cluster g) = (Inr r, c')"
    "refused r \<and> H c' \<or> res_status r < 500 \<and> L r c'"
    using call [OF less.prems(5)] by blast
  let ?g1 = "g\<lparr>gw_cluster := c'\<rparr>"
  have run: "on_cluster call g = (Inr r, ?g1)" using c'(1) by (simp add: on_cluster_def zoom_def)
  show ?case
  proof (cases "res_status r < 500")
    case True
    have "runs (bindE (breaker_for i (\<lambda>b. ((), record_success b))) (\<lambda>_. ret r))
        (\<lambda>x g'. x = r \<and> gw_cluster g' = c') ?g1"
      using less.prems(4) by (simp add: wp_breaker_for)
    then show ?thesis
      using True c'(2) run by (subst attempts.simps) (auto simp: runs_iff refused_def)
  next
    case False
    obtain g2 where g2: "after_failure i a ?g1 = (Inr (), g2)" "length (breakers g2) = length (breakers ?g1)"
      "max_retries g2 = max_retries ?g1" "shards (gw_cluster g2) = shards (gw_cluster ?g1)"
      using wp_after_failure [of i ?g1] less.prems(4) by auto
    have H: "refused r" "H (gw_cluster g2)" using False c'(2) frame [OF g2(4)] by auto
    have step: "attempts call i a g = (if a + 1 \<le> n then attempts call i (a + 1) g2 else Some (Inr r, g2))"
      using False run g2(1,3) less.prems(1) by (subst attempts.simps) simp
    show ?thesis
    proof (cases "a + 1 \<le> n")
      case True
      then have "unat n - unat (a + 1) < unat n - unat a"
        using word_succ [OF less.prems(3,2)] by (simp add: word_le_nat_alt)
      then show ?thesis
        using less.hyps [of "a + 1" g2] True step H(2) g2(2,3) less.prems by simp
    next
      case False
      then show ?thesis using step H by simp
    qed
  qed
qed

lemma attempts_end:
  assumes "max_retries g = n" and "n \<noteq> - 1" and "a \<le> n"
  shows "attempts call i a g \<noteq> None"
  using assms
proof (induction "unat n - unat a" arbitrary: a g rule: less_induct)
  case less
  obtain x g1 where g1: "on_cluster call g = (x, g1)" by force
  then have n1: "max_retries g1 = n" using less.prems(1) by (auto simp: on_cluster_def zoom_def split: prod.splits)
  obtain y g2 where g2: "after_failure i a g1 = (y, g2)" by force
  have n2: "max_retries g2 = n" if "y = Inr ()"
  proof -
    have "i < length (breakers g1)"
      using g2 that by (auto simp: after_failure_def breaker_fails_def bindE_def now_def Let_def breaker_for_def getE_def throwE_def
          split: if_splits)
    then show ?thesis using wp_after_failure [of i g1 a] g2 n1 by auto
  qed
  have "attempts call i (a + 1) g2 \<noteq> None" if "a + 1 \<le> n" "y = Inr ()"
  proof -
    have "unat n - unat (a + 1) < unat n - unat a"
      using that(1) word_succ [OF less.prems(3,2)] by (simp add: word_le_nat_alt)
    then show ?thesis using less.hyps n2 that less.prems(2) by blast
  qed
  then show ?case
    using g1 g2 n2 by (subst attempts.simps) (auto split: sum.splits)
qed

lemma breaker_allows_retries:
  "breaker_allows i g = (x, g1) \<Longrightarrow> max_retries g1 = max_retries g"
proof -
  assume "breaker_allows i g = (x, g1)"
  moreover have "wp (breaker_allows i) (\<lambda>_ g1. max_retries g1 = max_retries g) (\<lambda>_ g1. max_retries g1 = max_retries g) g"
    by (simp add: breaker_allows_def breaker_for_def split: prod.splits)
  ultimately show ?thesis by (simp add: wp_def split: sum.splits)
qed

lemma execute_ends:
  assumes "max_retries g \<noteq> - 1"
  shows "execute_with_resilience op key val g \<noteq> None"
proof -
  let ?i = "shard_for_key (length (shards (gw_cluster g))) key"
  obtain x g1 where g1: "breaker_allows ?i g = (x, g1)" by force
  then have "attempts (cluster_call op key val) ?i 0 g1 \<noteq> None"
    using assms breaker_allows_retries [OF g1] by (intro attempts_end [OF refl]) auto
  then show ?thesis
    using g1 by (auto simp: execute_with_resilience_def Let_def split: sum.splits)
qed

lemma kv_route_ends: "max_retries g \<noteq> - 1 \<Longrightarrow> kv_route request key g \<noteq> None"
  using execute_ends by (simp add: kv_route_def total_def count_gateway_def on_cluster_def zoom_def modifyE_def)

lemma routes_end: "max_retries g \<noteq> - 1 \<Longrightarrow> routes request g \<noteq> None"
  using kv_route_ends by (simp add: routes_def total_def Let_def)

lemma admit_retries:
  "wp (bindE now (\<lambda>started. bindE (admit rnd request) (\<lambda>x. ret (started, x))))
    (\<lambda>_ g'. max_retries g' = max_retries g \<and> shards (gw_cluster g') = shards (gw_cluster g) \<and>
      breakers g' = breakers g) (\<lambda>_ _. False) g"
  by (auto simp: admit_def allowed_by_rate_limit_def Let_def split: option.splits prod.splits)

text \<open>
  C24. Every request is answered: unless the retry count is the largest \<open>std::size_t\<close>, handling a request
  of any kind ends, with a response or an exception, under every schedule of engine errors.
\<close>

theorem handle_ends:
  assumes "max_retries g \<noteq> - 1"
  shows "handle rnd request g \<noteq> None"
proof -
  obtain x g1 where g1: "bindE now (\<lambda>started. bindE (admit rnd request) (\<lambda>x. ret (started, x))) g = (x, g1)" by force
  then have "routes request g1 \<noteq> None" if "x = Inr y" for y
    using admit_retries [of rnd request g] that assms by (intro routes_end) (simp add: wp_def)
  then show ?thesis
    using g1 by (auto simp: handle_def split: sum.splits)
qed

definition sample_request :: "string \<Rightarrow> string \<Rightarrow> string \<Rightarrow> http_request" where
  "sample_request method path body = \<lparr>req_method = method, req_path = path, req_version = ''HTTP/1.1'',
     req_headers = [(''authorization'', ''Bearer dev-secret'')], req_body = body, req_remote_ip = ''127.0.0.1''\<rparr>"

theorem handle_ends_witness:
  "let g = Gateway \<lparr>shards = [], cluster_metrics = Metrics\<rparr> ''dev-secret'' 20 40 2 \<lparr>time = 0, ticks = []\<rparr>
   in max_retries g \<noteq> - 1 \<and> handle (\<lambda>x. x) (sample_request ''GET'' ''/v1/kv/a'' []) g \<noteq> None"
  using handle_ends [of "Gateway \<lparr>shards = [], cluster_metrics = Metrics\<rparr> ''dev-secret'' 20 40 2 \<lparr>time = 0, ticks = []\<rparr>"
      "\<lambda>x. x" "sample_request ''GET'' ''/v1/kv/a'' []"]
  by (simp add: Let_def Gateway_def)

theorem unauthorized_touches_nothing_witness:
  "let g = Gateway \<lparr>shards = [], cluster_metrics = Metrics\<rparr> ''other'' 20 40 2 \<lparr>time = 0, ticks = []\<rparr>;
       request = sample_request ''GET'' ''/v1/kv/a'' []
   in bearer request \<noteq> Some (''Bearer '' @ api_key g) \<and> req_path request \<notin> {''/healthz'', ''/metrics''} \<and>
    (\<exists>resp g'. handle (\<lambda>x. x) request g = Some (Inr resp, g') \<and> resp_status resp = 401 \<and>
    shards (gw_cluster g') = shards (gw_cluster g) \<and> buckets g' = buckets g \<and> breakers g' = breakers g)"
proof -
  let ?g = "Gateway \<lparr>shards = [], cluster_metrics = Metrics\<rparr> ''other'' 20 40 2 \<lparr>time = 0, ticks = []\<rparr>"
  let ?r = "sample_request ''GET'' ''/v1/kv/a'' []"
  have 1: "bearer ?r \<noteq> Some (''Bearer '' @ api_key ?g)" "req_path ?r \<notin> {''/healthz'', ''/metrics''}"
    by (simp_all add: sample_request_def Gateway_def select_key_def)
  from unauthorized_touches_nothing [OF this, of "\<lambda>x. x"] 1 show ?thesis by (simp add: Let_def)
qed

subsection \<open>Reads and writes through the gateway\<close>

lemma breaker_allows_runs:
  assumes "i < length (breakers g)"
  shows "\<exists>b g1. breaker_allows i g = (Inr b, g1) \<and> length (breakers g1) = length (breakers g) \<and>
    max_retries g1 = max_retries g \<and> gw_cluster g1 = gw_cluster g"
proof -
  have "runs (breaker_allows i) (\<lambda>_ g1. length (breakers g1) = length (breakers g) \<and>
    max_retries g1 = max_retries g \<and> gw_cluster g1 = gw_cluster g) g"
    using assms by (simp add: breaker_allows_def wp_breaker_for)
  then show ?thesis by (auto simp: runs_iff)
qed

lemma execute_returns:
  assumes call: "\<And>c. H c \<Longrightarrow> \<exists>r c'. cluster_call op key val c = (Inr r, c') \<and>
      (refused r \<and> H c' \<or> res_status r < 500 \<and> L r c')"
    and frame: "\<And>c c'. shards c = shards c' \<Longrightarrow> H c = H c'"
    and g: "max_retries g \<noteq> - 1" "length (breakers g) = length (shards (gw_cluster g))"
      "shards (gw_cluster g) \<noteq> []" "H (gw_cluster g)"
  shows "\<exists>resp g'. execute_with_resilience op key val g = Some (Inr resp, g') \<and>
    (resp_status resp = 503 \<and> H (gw_cluster g') \<or>
     (\<exists>r. res_status r < 500 \<and> L r (gw_cluster g') \<and> resp_status resp = res_status r \<and>
        resp_body resp = result_body op key r))"
proof -
  let ?i = "shard_for_key (length (shards (gw_cluster g))) key"
  have i: "?i < length (breakers g)" using g(2,3) by simp
  have fr: "H (c\<lparr>cluster_metrics := x\<rparr>) = H c" for c x by (rule frame) simp
  obtain b g1 where g1: "breaker_allows ?i g = (Inr b, g1)" "length (breakers g1) = length (breakers g)"
    "max_retries g1 = max_retries g" "gw_cluster g1 = gw_cluster g"
    using breaker_allows_runs [OF i] by blast
  show ?thesis
  proof (cases b)
    case False
    have "runs (bindE (count_gateway inc_circuit_open) (\<lambda>_. ret (json_response 503 (breaker_open_body ?i))))
        (\<lambda>resp g'. resp_status resp = 503 \<and> H (gw_cluster g')) g1"
      using g(4) g1(4) by (simp add: json_response_def fr)
    then show ?thesis using False g1(1) by (auto simp: execute_with_resilience_def Let_def runs_iff)
  next
    case True
    have "\<exists>r g2. attempts (cluster_call op key val) ?i 0 g1 = Some (Inr r, g2) \<and>
      (refused r \<and> H (gw_cluster g2) \<or> res_status r < 500 \<and> L r (gw_cluster g2))"
      using g1 g i by (intro attempts_return [of H _ L, OF call frame g1(3)]) auto
    then obtain r g2 where g2: "attempts (cluster_call op key val) ?i 0 g1 = Some (Inr r, g2)"
      "refused r \<and> H (gw_cluster g2) \<or> res_status r < 500 \<and> L r (gw_cluster g2)"
      by blast
    have "runs (respond op key r) (\<lambda>resp g'. (resp_status resp = 503 \<and> H (gw_cluster g') \<or>
       (\<exists>r. res_status r < 500 \<and> L r (gw_cluster g') \<and> resp_status resp = res_status r \<and>
        resp_body resp = result_body op key r))) g2"
    proof (cases "res_status r < 500")
      case True
      then show ?thesis using g2(2) by (auto simp: respond_def json_response_def refused_def)
    next
      case False
      then have "refused r" "H (gw_cluster g2)" using g2(2) by auto
      then show ?thesis by (simp add: respond_def json_response_def refused_def fr)
    qed
    then show ?thesis using True g1(1) g2(1) by (auto simp: execute_with_resilience_def Let_def runs_iff)
  qed
qed

lemma admit_cases:
  assumes "authorized request g" and "req_path request \<notin> {''/healthz'', ''/metrics''}"
  obtains (limited) resp g' where "handle rnd request g = Some (Inr resp, g')" "resp_status resp = 429"
      "shards (gw_cluster g') = shards (gw_cluster g)"
  | (admitted) started g1 where "handle rnd request g =
        (case routes request g1 of None \<Rightarrow> None | Some (Inl e, g2) \<Rightarrow> Some (Inl e, g2)
         | Some (Inr response, g2) \<Rightarrow> Some (finish started response g2))"
      "max_retries g1 = max_retries g" "shards (gw_cluster g1) = shards (gw_cluster g)" "breakers g1 = breakers g"
proof -
  let ?m = "bindE now (\<lambda>started. bindE (admit rnd request) (\<lambda>x. ret (started, x)))"
  have "authorized request (g\<lparr>clk := ck\<rparr>)" for ck
    using assms(1) by (auto simp: authorized_def split: option.splits)
  then have "runs ?m (\<lambda>x g1. (case snd x of Inl resp \<Rightarrow> resp_status resp = 429 | Inr _ \<Rightarrow> True)) g"
    using assms(2) by (auto simp: admit_def allowed_by_rate_limit_def Let_def json_response_def
        split: option.splits prod.splits)
  from wp_conj [OF this admit_retries [of rnd request g]] obtain started x g1 where
    g1: "?m g = (Inr (started, x), g1)" "max_retries g1 = max_retries g"
      "shards (gw_cluster g1) = shards (gw_cluster g)" "breakers g1 = breakers g"
    and x: "case x of Inl resp \<Rightarrow> resp_status resp = 429 | Inr _ \<Rightarrow> True"
    by (auto simp: runs_iff)
  show ?thesis
  proof (cases x)
    case (Inl resp)
    then show ?thesis
      using limited g1 x wp_finish [of started resp g1] by (auto simp: handle_def)
  next
    case (Inr u)
    then show ?thesis using admitted g1 by (simp add: handle_def)
  qed
qed

text \<open>A request on a key that gets past the guards of the route.\<close>

lemma handle_kv:
  assumes call: "\<And>c. H c \<Longrightarrow> \<exists>r c'. cluster_call op key val c = (Inr r, c') \<and>
      (refused r \<and> H c' \<or> res_status r < 500 \<and> L r c')"
    and frame: "\<And>c c'. shards c = shards c' \<Longrightarrow> H c = H c'" "\<And>r c c'. shards c = shards c' \<Longrightarrow> L r c = L r c'"
    and g: "max_retries g \<noteq> - 1" "length (breakers g) = length (shards (gw_cluster g))"
      "shards (gw_cluster g) \<noteq> []" "H (gw_cluster g)"
    and request: "authorized request g" "split_path (req_path request) = [''v1'', ''kv'', key]"
      "\<And>g. \<exists>f. kv_route request key g = execute_with_resilience op key val (snd (count_gateway f g))"
  shows "\<exists>resp g'. handle rnd request g = Some (Inr resp, g') \<and>
    (resp_status resp \<in> {429, 503} \<and> H (gw_cluster g') \<or>
     (\<exists>r. res_status r < 500 \<and> L r (gw_cluster g') \<and> resp_status resp = res_status r \<and>
        resp_body resp = result_body op key r))"
proof -
  have "split_path ''/healthz'' = [''healthz'']" "split_path ''/metrics'' = [''metrics'']" by code_simp+
  then have path: "req_path request \<notin> {''/healthz'', ''/metrics''}" using request(2) by auto
  from request(1) path show ?thesis
  proof (cases rule: admit_cases [where rnd = rnd])
    case (limited resp g')
    then show ?thesis using frame(1) [of "gw_cluster g'" "gw_cluster g"] g(4) by auto
  next
    case (admitted started g1)
    obtain f where f: "routes request g1 = execute_with_resilience op key val (snd (count_gateway f g1))"
      using request(2,3) by (auto simp: routes_def Let_def)
    let ?g2 = "snd (count_gateway f g1)"
    have g2: "max_retries ?g2 = max_retries g" "shards (gw_cluster ?g2) = shards (gw_cluster g)" "breakers ?g2 = breakers g"
      using admitted by (simp_all add: count_gateway_def on_cluster_def zoom_def modifyE_def)
    obtain resp g' where e: "execute_with_resilience op key val ?g2 = Some (Inr resp, g')"
      "resp_status resp = 503 \<and> H (gw_cluster g') \<or>
       (\<exists>r. res_status r < 500 \<and> L r (gw_cluster g') \<and> resp_status resp = res_status r \<and>
          resp_body resp = result_body op key r)"
      using execute_returns [of H op key val L ?g2, OF call frame(1)] g g2 frame(1) [OF g2(2)] by auto
    obtain resp' g3 where fin: "finish started resp g' = (Inr resp', g3)" "resp_status resp' = resp_status resp"
      "resp_body resp' = resp_body resp" "shards (gw_cluster g3) = shards (gw_cluster g')"
      using wp_finish [of started resp g'] by blast
    have "handle rnd request g = Some (Inr resp', g3)" using admitted(1) f e(1) fin(1) by simp
    moreover have "H (gw_cluster g3) = H (gw_cluster g')" "L r (gw_cluster g3) = L r (gw_cluster g')" for r
      using frame fin(4) by blast+
    ultimately show ?thesis using e(2) fin(2,3) by auto
  qed
qed

text \<open>A gateway in front of a cluster that holds \<open>m\<close>, with a retry count that ends.\<close>

definition gateway_holds :: "nat \<Rightarrow> gateway \<Rightarrow> (nat \<times> string \<Rightarrow> string option) \<Rightarrow> bool" where
  "gateway_holds n g m \<longleftrightarrow> cluster_holds n (gw_cluster g) m \<and> length (breakers g) = n \<and> max_retries g \<noteq> - 1"

lemma gateway_holdsD:
  "gateway_holds n g m \<Longrightarrow> max_retries g \<noteq> - 1 \<and> length (breakers g) = length (shards (gw_cluster g)) \<and>
    shards (gw_cluster g) \<noteq> [] \<and> cluster_holds n (gw_cluster g) m"
  by (auto simp: gateway_holds_def cluster_holds_def)

lemma fresh_gateway:
  assumes "0 < n" and "0 < r" and "rtrs \<noteq> - 1"
  shows "\<exists>c. Cluster n r None (\<lambda>_. None) (\<lambda>_. []) t mt = Inr c \<and> gateway_holds n (Gateway c key rate bst rtrs ck) Map.empty"
proof -
  obtain c where "Cluster n r None (\<lambda>_. None) (\<lambda>_. []) t mt = Inr c" "cluster_holds n c Map.empty"
    using Cluster_fresh [OF assms(1,2)] by blast
  then show ?thesis using assms(3) by (auto simp: gateway_holds_def Gateway_def cluster_holds_def)
qed


lemma put_through_gateway:
  assumes g: "gateway_holds n g m" and "bearer request = Some (''Bearer '' @ api_key g)"
    and path: "split_path (req_path request) = [''v1'', ''kv'', key]" and key: "key \<noteq> []" "length key \<le> 512"
    and "req_method request = ''PUT''" and "length (req_body request) \<le> 1024 * 1024"
  shows "\<exists>resp g'. handle rnd request g = Some (Inr resp, g') \<and>
    (resp_status resp = 201 \<and> cluster_holds n (gw_cluster g') (m(route n key \<mapsto> req_body request)) \<or>
     resp_status resp \<in> {429, 503} \<and> cluster_holds n (gw_cluster g') m)"
proof -
  let ?v = "req_body request"
  let ?L = "\<lambda>r c. res_status r = 201 \<and> cluster_holds n c (m(route n key \<mapsto> ?v))"
  have call: "\<exists>r c'. cluster_call ''PUT'' key ?v c = (Inr r, c') \<and>
      (refused r \<and> cluster_holds n c' m \<or> res_status r < 500 \<and> ?L r c')" if "cluster_holds n c m" for c
    using cluster_kv.put_law [OF that, of key ?v] by (auto simp: cluster_call_def)
  have L: "?L r c = ?L r c'" if "shards c = shards c'" for r c c'
    using cluster_holds_shards [OF that] by simp
  have kv: "\<exists>f. kv_route request key g = execute_with_resilience ''PUT'' key ?v (snd (count_gateway f g))" for g
    using key assms(6,7) by (auto simp: kv_route_def)
  obtain resp g' where "handle rnd request g = Some (Inr resp, g')"
    "resp_status resp \<in> {429, 503} \<and> cluster_holds n (gw_cluster g') m \<or>
     (\<exists>r. res_status r < 500 \<and> ?L r (gw_cluster g') \<and> resp_status resp = res_status r \<and>
        resp_body resp = result_body ''PUT'' key r)"
    using handle_kv [where H = "\<lambda>c. cluster_holds n c m" and L = ?L and rnd = rnd,
        OF call cluster_holds_shards L _ _ _ _ assms(2) [folded authorized_iff] path kv] gateway_holdsD [OF g] by blast
  then show ?thesis by auto
qed

text \<open>
  C13. Writing through the gateway: an authorized \<open>PUT\<close> of at most 1 MiB on a key of at most 512 bytes is
  answered. Either the response is 201 and the cluster now holds exactly the body for the key, or it is
  429 or 503 and the cluster holds what it held, however many attempts were made.
\<close>

theorem gateway_put:
  assumes g: "gateway_holds n g m" and "bearer request = Some (''Bearer '' @ api_key g)"
    and path: "split_path (req_path request) = [''v1'', ''kv'', key]" and key: "key \<noteq> []" "length key \<le> 512"
    and "req_method request = ''PUT''" and "length (req_body request) \<le> 1024 * 1024"
  shows "\<exists>resp g'. handle rnd request g = Some (Inr resp, g') \<and>
    (resp_status resp = 201 \<and> cluster_holds n (gw_cluster g') (m(route n key \<mapsto> req_body request)) \<or>
     resp_status resp \<in> {429, 503} \<and> cluster_holds n (gw_cluster g') m)"
  using assms by (rule put_through_gateway)


theorem gateway_put_witness:
  "\<exists>g. gateway_holds 4 g Map.empty \<and> bearer (sample_request ''PUT'' ''/v1/kv/a'' ''1'') = Some (''Bearer '' @ api_key g) \<and>
    (\<exists>resp g'. handle (\<lambda>x. x) (sample_request ''PUT'' ''/v1/kv/a'' ''1'') g = Some (Inr resp, g') \<and>
    (resp_status resp = 201 \<and> cluster_holds 4 (gw_cluster g') (Map.empty(route 4 ''a'' \<mapsto> ''1'')) \<or>
     resp_status resp \<in> {429, 503} \<and> cluster_holds 4 (gw_cluster g') Map.empty))"
proof -
  obtain c where c: "gateway_holds 4 (Gateway c ''dev-secret'' 20 40 2 \<lparr>time = 0, ticks = []\<rparr>) Map.empty"
    using fresh_gateway [of 4 3 2 0 Metrics "''dev-secret''" 20 40 "\<lparr>time = 0, ticks = []\<rparr>"] by auto
  let ?g = "Gateway c ''dev-secret'' 20 40 2 \<lparr>time = 0, ticks = []\<rparr>"
  let ?r = "sample_request ''PUT'' ''/v1/kv/a'' ''1''"
  have path: "split_path (req_path ?r) = [''v1'', ''kv'', ''a'']" by (simp add: sample_request_def) code_simp
  have auth: "bearer ?r = Some (''Bearer '' @ api_key ?g)" by (simp add: sample_request_def Gateway_def select_key_def)
  have r: "req_method ?r = ''PUT''" "req_body ?r = ''1''" by (simp_all add: sample_request_def)
  from gateway_put [OF c auth path _ _ r(1), of "\<lambda>x. x"] c auth r(2) show ?thesis by auto
qed

subsection \<open>The largest retry count\<close>

lemma attempts_never_end:
  assumes call: "\<And>c. H c \<Longrightarrow> \<exists>r c'. call c = (Inr r, c') \<and> refused r \<and> H c'"
    and frame: "\<And>c c'. shards c = shards c' \<Longrightarrow> H c = H c'"
    and "H (gw_cluster g)" and "max_retries g = - 1" and "i < length (breakers g)"
  shows "attempts call i a g = None"
proof -
  define P where "P call' i a g y \<longleftrightarrow>
      \<not> (call' = call \<and> H (gw_cluster g) \<and> max_retries g = - 1 \<and> i < length (breakers g))"
    for call' :: "(cluster, operation_result) op" and i :: nat and a :: "64 word" and g :: gateway
      and y :: "(exn + operation_result) \<times> gateway"
  have "P call i a g y" if "attempts call i a g = Some y" for y
    using that
  proof (rule attempts.raw_induct [rotated, where P = P])
    fix f call' i a g y
    assume IH: "\<And>call' i a g y. f call' i a g = Some y \<Longrightarrow> P call' i a g y"
      and body: "(case on_cluster call' g of (Inl e, g1) \<Rightarrow> Some (Inl e, g1)
        | (Inr result, g1) \<Rightarrow>
            if res_status result < 500
            then Some (bindE (breaker_for i (\<lambda>b. ((), record_success b))) (\<lambda>_. ret result) g1)
            else (case after_failure i a g1 of (Inl e, g2) \<Rightarrow> Some (Inl e, g2)
              | (Inr _, g2) \<Rightarrow> if a + 1 \<le> max_retries g2 then f call' i (a + 1) g2
                else Some (Inr result, g2))) = Some y"
    show "P call' i a g y" unfolding P_def
    proof
      assume g: "call' = call \<and> H (gw_cluster g) \<and> max_retries g = - 1 \<and> i < length (breakers g)"
      then obtain r c' where c': "call (gw_cluster g) = (Inr r, c')" "refused r" "H c'" using call by blast
      let ?g1 = "g\<lparr>gw_cluster := c'\<rparr>"
      obtain g2 where g2: "after_failure i a ?g1 = (Inr (), g2)" "length (breakers g2) = length (breakers ?g1)"
        "max_retries g2 = max_retries ?g1" "shards (gw_cluster g2) = shards (gw_cluster ?g1)"
        using wp_after_failure [of i ?g1 a] g by auto
      have "on_cluster call g = (Inr r, ?g1)" using c'(1) by (simp add: on_cluster_def zoom_def)
      then have "f call i (a + 1) g2 = Some y"
        using body g2(1,3) g c'(2) by (simp add: refused_def)
      then have "P call i (a + 1) g2 y" by (rule IH)
      moreover have "H (gw_cluster g2)" using frame [OF g2(4)] c'(3) by simp
      moreover have "max_retries g2 = - 1" "i < length (breakers g2)" using g g2(2,3) by auto
      ultimately show False unfolding P_def by blast
    qed
  qed
  then show ?thesis using assms(3-5) unfolding P_def by (cases "attempts call i a g") blast+
qed



end
