(* ===== verification/Http_Props.thy ===== *)
theory Http_Props
  imports Http_Parsing Gateway_Props
begin

text \<open>
  The properties of the HTTP server and of its composition with the gateway: what reaches the handler,
  what is refused before it, what goes out, and a \<open>PUT\<close> followed from the bytes on the wire to the
  content of the cluster.
\<close>

subsection \<open>Every request that reaches the handler\<close>

lemma header_line_announces:
  assumes "header_line l acc = Inr acc'" and "table_ok (fst acc)" and "announces (fst acc) (snd acc)"
  shows "table_ok (fst acc') \<and> announces (fst acc') (snd acc')"
  using assms
  by (auto simp: header_line_def Let_def announces_def tbl.lookup_update tbl.ok_update
      split: if_splits option.splits sum.splits)

lemma header_lines_announces:
  assumes "header_lines s acc = Inr acc'" and "table_ok (fst acc)" and "announces (fst acc) (snd acc)"
  shows "table_ok (fst acc') \<and> announces (fst acc') (snd acc')"
  using assms
proof (induction s acc rule: header_lines.induct)
  case (1 s acc)
  show ?case
  proof (cases "getline s")
    case None
    then show ?thesis using 1(2-4) by (simp add: header_lines.simps [of s])
  next
    case (Some p)
    obtain line rest where p: "p = (line, rest)" by force
    then obtain acc1 where acc1: "header_line line acc = Inr acc1"
      using 1(2) Some by (cases "header_line line acc") (auto simp: header_lines.simps [of s])
    then have "header_lines rest acc1 = Inr acc'" using 1(2) Some p by (simp add: header_lines.simps [of s])
    then show ?thesis
      using "1.IH" [OF Some p [symmetric] acc1] header_line_announces [OF acc1 1(3,4)] by blast
  qed
qed

lemma read_body_length: "read_body n body c = (Inr b, c') \<Longrightarrow> length b = n"
proof (induction n body c rule: read_body.induct)
  case (1 n body c)
  obtain bytes c1 where r: "recv (min 8192 (n - length body)) c = (bytes, c1)" by force
  show ?case
  proof (cases "length body < n")
    case True
    then have "bytes \<noteq> []" using 1(2) r by (auto simp: read_body.simps [of n body])
    then show ?thesis using "1.IH" [OF True r [symmetric]] 1(2) True r by (simp add: read_body.simps [of n body])
  next
    case False
    then show ?thesis using 1(2) by (auto simp: read_body.simps [of n body] split: if_splits)
  qed
qed

lemma next_word_words: "fst (next_word s) \<noteq> [] \<Longrightarrow> word_ok (fst (next_word s))"
  by (auto simp: next_word_def Let_def word_ok_def list_all_iff dest: set_takeWhileD)

lemma read_request_bounds:
  assumes "read_request ip c = (Inr (Inr r), c')"
  shows "word_ok (req_method r) \<and> word_ok (req_path r) \<and> req_remote_ip r = ip \<and> table_ok (req_headers r) \<and>
    announces (req_headers r) (of_nat (length (req_body r))) \<and> length (req_body r) \<le> 1024 * 1024"
proof -
  obtain raw i c1 where h: "read_headers [] c = (Inr (raw, i), c1)"
    using assms by (auto simp: read_request_def bindE_def split: prod.splits sum.splits)
  obtain first rest where l: "(case getline (take i raw) of None \<Rightarrow> ([], []) | Some p \<Rightarrow> p) = (first, rest)" by force
  obtain m l1 where m: "next_word (trim first) = (m, l1)" by force
  obtain p l2 where p: "next_word l1 = (p, l2)" by force
  obtain v l3 where v: "next_word l2 = (v, l3)" by force
  have start: "(if m = [] \<or> p = [] then throwE (Runtime_error ''invalid request line'')
      else bindE (liftE (header_lines rest ([], 0))) (\<lambda>(hs, n).
        if n > 1024 * 1024
        then ret (Inl (HttpResponse\<lparr>resp_status := 413, resp_body := ''{\"error\":\"request body too large\"}''\<rparr>))
        else bindE (read_body (unat n) (drop (i + 4) raw)) (\<lambda>b. ret (Inr \<lparr>req_method = m, req_path = p,
          req_version = v, req_headers = hs, req_body = b, req_remote_ip = ip\<rparr>)))) c1 = (Inr (Inr r), c')"
    using assms h l m p v unfolding read_request_def bindE_def [of "read_headers []"] Let_def by auto
  have ne: "m \<noteq> []" "p \<noteq> []" using start by (auto simp: throwE_def split: if_splits)
  obtain hs n where hl: "header_lines rest ([], 0) = Inr (hs, n)"
    using start ne by (cases "header_lines rest ([], 0)") (auto simp: bindE_def liftE_def)
  have n: "\<not> n > 1024 * 1024" using start ne hl by (auto simp: bindE_def liftE_def ret_def split: if_splits)
  obtain b c2 where b: "read_body (unat n) (drop (i + 4) raw) c1 = (Inr b, c2)"
    using start ne hl n by (auto simp: bindE_def liftE_def ret_def split: prod.splits sum.splits)
  have r: "r = \<lparr>req_method = m, req_path = p, req_version = v, req_headers = hs, req_body = b, req_remote_ip = ip\<rparr>"
    using start ne hl n b by (simp add: bindE_def liftE_def ret_def)
  have "table_ok hs \<and> announces hs n"
    using header_lines_announces [OF hl] tbl.ok_empty by (simp add: announces_def select_key_def)
  moreover have "length b = unat n" using read_body_length [OF b] .
  moreover have "unat n \<le> 1024 * 1024" using n by (simp add: word_less_nat_alt)
  ultimately show ?thesis
    using r next_word_words [of "trim first"] next_word_words [of l1] m p ne by simp
qed

subsection \<open>Connections that are refused\<close>

lemma read_headers_missing:
  assumes "find_str (crlf @ crlf) (raw @ concat (incoming c)) = None"
  shows "\<exists>e c'. read_headers raw c = (Inl e, c') \<and> accepts c' = accepts c \<and> sent c' = sent c \<and>
    e \<in> {Runtime_error ''failed to read request headers'', Runtime_error ''request too large''}"
  using assms
proof (induction raw c rule: read_headers.induct)
  case (1 raw c)
  have None: "find_str (crlf @ crlf) raw = None"
    using find_str_append [of "crlf @ crlf" raw] 1(2) by (cases "find_str (crlf @ crlf) raw") auto
  obtain bytes c1 where r: "recv 8192 c = (bytes, c1)" by force
  show ?case
  proof (cases "bytes = [] \<or> length (raw @ bytes) > max_request_size")
    case True
    then show ?thesis using None r recv_frame [OF r] by (auto simp: read_headers.simps [of raw c])
  next
    case False
    then show ?thesis
      using "1.IH" [OF None r [symmetric]] 1(2) None r recv_stream [OF r] recv_frame [OF r]
      by (simp add: read_headers.simps [of raw c])
  qed
qed

subsection \<open>Replies\<close>

lemma send_all_all: "accepts c = [] \<Longrightarrow> send_all data c = (True, c\<lparr>sent := sent c @ data\<rparr>)"
  by (cases c) (simp add: send_all.simps)

lemma send_all_prefix: "\<exists>n. sent (snd (send_all data c)) = sent c @ take n data"
proof (induction data c rule: send_all.induct)
  case (1 data c)
  show ?case
  proof (cases "data = [] \<or> accepts c = [] \<or> hd (accepts c) \<le> 0")
    case True
    then show ?thesis
      by (cases "accepts c") (auto simp: send_all.simps [of data c] intro: exI [of _ "length data"] exI [of _ 0])
  next
    case False
    then obtain rc rcs where a: "accepts c = rc # rcs" "data \<noteq> []" "\<not> rc \<le> 0" by (cases "accepts c") auto
    define k where "k = min (nat rc) (length data)"
    obtain n where "sent (snd (send_all (drop k data) (c\<lparr>accepts := rcs, sent := sent c @ take k data\<rparr>))) =
        (sent c @ take k data) @ take n (drop k data)"
      using "1.IH" [OF a(2,1,3) k_def] by auto
    then have "sent (snd (send_all data c)) = sent c @ take (k + n) data"
      using a by (simp add: send_all.simps [of data c] take_add k_def Let_def)
    then show ?thesis by blast
  qed
qed

lemma reply_all:
  "accepts c = [] \<Longrightarrow> sent (reply resp c) = sent c @ render_response resp" "\<not> conn_open (reply resp c)"
  by (simp_all add: reply_def send_all_all)

lemma reply_prefix: "\<exists>n. sent (reply resp c) = sent c @ take n (render_response resp)"
  using send_all_prefix [of "render_response resp" c] by (simp add: reply_def)

subsection \<open>Reading changes nothing else\<close>

lemma read_headers_frame: "read_headers raw c = (x, c') \<Longrightarrow> accepts c' = accepts c \<and> sent c' = sent c"
proof (induction raw c rule: read_headers.induct)
  case (1 raw c)
  obtain bytes c1 where r: "recv 8192 c = (bytes, c1)" by force
  then show ?case
    using 1 recv_frame [OF r] by (auto simp: read_headers.simps [of raw c] split: option.splits if_splits)
qed

lemma read_body_frame: "read_body n body c = (x, c') \<Longrightarrow> accepts c' = accepts c \<and> sent c' = sent c"
proof (induction n body c rule: read_body.induct)
  case (1 n body c)
  obtain bytes c1 where r: "recv (min 8192 (n - length body)) c = (bytes, c1)" by force
  then show ?case
    using 1 recv_frame [OF r] by (auto simp: read_body.simps [of n body c] split: if_splits)
qed

lemma read_request_frame:
  assumes "read_request ip c = (x, c')"
  shows "accepts c' = accepts c \<and> sent c' = sent c"
proof -
  have "wp (read_request ip) (\<lambda>_ c'. accepts c' = accepts c \<and> sent c' = sent c)
      (\<lambda>_ c'. accepts c' = accepts c \<and> sent c' = sent c) c"
  proof -
    have body: "wp (read_body n b) Q E c1" if "\<And>x c2. accepts c2 = accepts c1 \<Longrightarrow> sent c2 = sent c1 \<Longrightarrow> Q x c2"
      "\<And>x c2. accepts c2 = accepts c1 \<Longrightarrow> sent c2 = sent c1 \<Longrightarrow> E x c2" for n b Q E c1
      using that read_body_frame [of n b c1] by (auto simp: wp_def split: prod.splits sum.splits)
    have head: "wp (read_headers b) Q E c1" if "\<And>x c2. accepts c2 = accepts c1 \<Longrightarrow> sent c2 = sent c1 \<Longrightarrow> Q x c2"
      "\<And>x c2. accepts c2 = accepts c1 \<Longrightarrow> sent c2 = sent c1 \<Longrightarrow> E x c2" for b Q E c1
      using that read_headers_frame [of b c1] by (auto simp: wp_def split: prod.splits sum.splits)
    show ?thesis
      by (auto simp: read_request_def Let_def intro!: head body split: prod.splits sum.splits)
  qed
  then show ?thesis using assms by (auto simp: wp_def split: sum.splits)
qed

subsection \<open>The framing of responses\<close>

definition response_lines :: "http_response \<Rightarrow> string list" where
  "response_lines r =
     [''HTTP/1.1 '' @ to_string (resp_status r) @ '' '' @ reason_phrase (resp_status r),
      ''Content-Type: '' @ resp_content_type r,
      ''Content-Length: '' @ nat_to_string (length (resp_body r)),
      ''Connection: close''] @ map header_text (resp_headers r)"

lemma render_response_lines: "render_response r = join (response_lines r) @ crlf @ crlf @ resp_body r"
proof -
  have "(\<lambda>(name, val). name @ '': '' @ val @ crlf) = (\<lambda>h. header_text h @ crlf)"
    by (auto simp: header_text_def)
  then have "render_response r = concat (map (\<lambda>l. l @ crlf) (response_lines r)) @ crlf @ resp_body r"
    by (simp add: render_response_def response_lines_def o_def)
  then show ?thesis using join_terminated [of "response_lines r"] by (simp add: response_lines_def)
qed

text \<open>No carriage return or line feed in what the handler puts into the head of a response.\<close>

definition plain :: "string \<Rightarrow> bool" where
  "plain s \<longleftrightarrow> CHR 0x0D \<notin> set s \<and> CHR 0x0A \<notin> set s"

definition response_ok :: "http_response \<Rightarrow> bool" where
  "response_ok r \<longleftrightarrow> plain (resp_content_type r) \<and>
     list_all (\<lambda>(name, val). plain name \<and> plain val) (resp_headers r)"

lemma plain_append [simp]: "plain (a @ b) \<longleftrightarrow> plain a \<and> plain b"
  by (auto simp: plain_def)

lemma plain_digits: "plain (nat_to_string n)" "plain (to_string i)"
proof -
  have "\<not> isdigit (CHR 0x0D)" "\<not> isdigit (CHR 0x0A)" by (simp_all add: isdigit_def)
  then show n: "plain (nat_to_string n)" for n using nat_to_string_digits by (auto simp: plain_def)
  show "plain (to_string i)" using n by (simp add: to_string_def plain_def)
qed

lemma plain_reason: "plain (reason_phrase s)"
  by (simp add: reason_phrase_def plain_def)

lemma response_lines_ok:
  assumes "response_ok r"
  shows "list_all line_ok (response_lines r)"
proof -
  have "list_all line_ok (map header_text (resp_headers r))"
    using assms by (auto simp: response_ok_def list_all_iff header_text_def line_ok_def plain_def)
  moreover have "line_ok (''HTTP/1.1 '' @ to_string (resp_status r) @ '' '' @ reason_phrase (resp_status r))"
    using plain_digits(2) [of "resp_status r"] plain_reason [of "resp_status r"] by (simp add: line_ok_def plain_def)
  moreover have "line_ok (''Content-Type: '' @ resp_content_type r)"
    using assms by (simp add: response_ok_def line_ok_def plain_def)
  moreover have "line_ok (''Content-Length: '' @ nat_to_string (length (resp_body r)))"
    using plain_digits(1) [of "length (resp_body r)"] by (simp add: line_ok_def plain_def)
  moreover have "line_ok ''Connection: close''" by (simp add: line_ok_def)
  ultimately show ?thesis unfolding response_lines_def by simp
qed

lemma response_framed:
  assumes "response_ok r"
  shows "\<exists>i. find_str (crlf @ crlf) (render_response r) = Some i \<and>
    drop (i + 4) (render_response r) = resp_body r"
  using find_end [OF _ response_lines_ok [OF assms], of "resp_body r"]
  by (simp add: render_response_lines) (simp add: response_lines_def crlf_def)

subsection \<open>Responses of the gateway\<close>

lemma upsert_values: "set (upsert k v t) \<subseteq> insert (k, v) (set t)"
  by (induction t) (auto split: if_splits)

lemma json_response_ok [simp]: "response_ok (json_response st b)"
  by (simp add: json_response_def HttpResponse_def response_ok_def plain_def)

lemma response_ok_header:
  assumes "response_ok r" and "plain name" and "plain val"
  shows "response_ok (r\<lparr>resp_headers := upsert name val (resp_headers r)\<rparr>)"
  using assms upsert_values [of name val "resp_headers r"] by (auto simp: response_ok_def list_all_iff)

lemma finish_ok:
  assumes "finish started resp g = (Inr resp', g')" and "response_ok resp"
  shows "response_ok resp'"
proof -
  let ?h1 = "''X-Content-Type-Options''" and ?h2 = "''X-Request-Latency-Us''"
  have p: "plain ?h1" "plain ?h2" "plain ''nosniff''" by (simp_all add: plain_def)
  obtain t where t: "resp' = resp\<lparr>resp_headers := upsert ?h2 (to_string t) (upsert ?h1 ''nosniff'' (resp_headers resp))\<rparr>"
    using assms(1) by (auto simp: finish_def bindE_def now_def Let_def count_gateway_def on_cluster_def zoom_def
        modifyE_def ret_def)
  then show ?thesis
    using response_ok_header [OF response_ok_header [OF assms(2) p(1,3)] p(2) plain_digits(2) [of t]] by simp
qed

lemma admit_ok:
  assumes "admit rnd request g = (Inr (Inl resp), g')"
  shows "response_ok resp"
proof -
  have "wp (admit rnd request) (\<lambda>x _. \<forall>resp. x = Inl resp \<longrightarrow> response_ok resp) (\<lambda>_ _. True) g"
  proof (cases "authorized request g")
    case True
    have "wp (allowed_by_rate_limit rnd (client_of request)) Q (\<lambda>_ _. True) g" if "\<And>b g. Q b g" for Q
      using that by (auto simp: wp_def split: prod.splits sum.splits)
    then show ?thesis
      using True by (simp add: admit_def response_ok_def HttpResponse_def json_response_def plain_def)
  next
    case False
    then show ?thesis by (simp add: admit_def response_ok_def HttpResponse_def json_response_def plain_def)
  qed
  then show ?thesis using assms by (simp add: wp_def)
qed


text \<open>Every route answers with a JSON response.\<close>

definition answers_json :: "(exn + http_response) \<times> gateway \<Rightarrow> bool" where
  "answers_json x \<longleftrightarrow> (case x of (Inr resp, _) \<Rightarrow> (\<exists>st b. resp = json_response st b) | _ \<Rightarrow> True)"

lemma answers_json_ret [simp]: "answers_json (ret (json_response st b) g)"
  by (auto simp: answers_json_def ret_def)

lemma answers_json_Inl [simp]: "answers_json (Inl e, g)"
  by (simp add: answers_json_def)

lemma answers_json_bind: "(\<And>x g. answers_json (f x g)) \<Longrightarrow> answers_json (bindE m f g)"
  by (simp add: bindE_def split: prod.splits sum.splits)

lemma answers_json_catch: "answers_json (m g) \<Longrightarrow> (\<And>e g. answers_json (h e g)) \<Longrightarrow> answers_json (catchE m h g)"
  by (auto simp: catchE_def split: prod.splits sum.splits)

lemma answers_json_if: "answers_json (ret x g) \<Longrightarrow> answers_json (ret y g) \<Longrightarrow> answers_json (ret (if b then x else y) g)"
  by simp

lemmas answers_json_rules = answers_json_ret answers_json_bind answers_json_catch answers_json_if

lemma execute_json:
  "execute_with_resilience operation key val g = Some x \<Longrightarrow> answers_json x"
proof -
  assume x: "execute_with_resilience operation key val g = Some x"
  have "answers_json (respond operation key r g)" for r g
    unfolding respond_def by (intro answers_json_rules)
  moreover have "answers_json (bindE (count_gateway inc_circuit_open) (\<lambda>_. ret (json_response 503 b)) g)" for b g
    by (intro answers_json_rules)
  ultimately show ?thesis using x
    by (auto simp: execute_with_resilience_def Let_def split: prod.splits sum.splits if_splits option.splits)
qed

lemma routes_json:
  assumes "routes request g = Some x"
  shows "answers_json x"
proof -
  have kv: "answers_json y" if "kv_route request key g = Some y" for key y
    using that execute_json by (auto simp: kv_route_def total_def split: if_splits)
  have admin: "answers_json (admin_replica a sh rid g)" "answers_json (admin_elect sh g)" for a sh rid g
    unfolding admin_replica_def admin_elect_def by (intro answers_json_rules)+
  have cluster: "answers_json (bindE (on_cluster cluster_status_json) (\<lambda>j. ret (json_response 200 j)) g)" for g
    by (intro answers_json_rules)
  show ?thesis
    using assms kv admin cluster by (auto simp: routes_def Let_def total_def split: if_splits)
qed

lemma handle_response_ok:
  assumes "handle rnd request g = Some (Inr resp, g')"
  shows "response_ok resp"
proof -
  obtain y g1 where 1: "bindE now (\<lambda>started. bindE (admit rnd request) (\<lambda>x. ret (started, x))) g = (y, g1)" by force
  consider started r where "y = Inr (started, Inl r)" "finish started r g1 = (Inr resp, g')"
    | started r g2 where "routes request g1 = Some (Inr r, g2)" "finish started r g2 = (Inr resp, g')"
    using assms 1 by (auto simp: handle_def split: prod.splits sum.splits option.splits)
  then show ?thesis
  proof cases
    case 1
    then show ?thesis using finish_ok admit_ok \<open>bindE now _ g = (y, g1)\<close>
      by (auto simp: bindE_def ret_def split: prod.splits sum.splits)
  next
    case 2
    then show ?thesis using finish_ok routes_json [OF 2(1)] by (auto simp: answers_json_def)
  qed
qed

lemma split_path_nonempty: "key \<in> set (split_path path) \<Longrightarrow> key \<noteq> []"
  using split_path_loop_parts [of "[]" "[]" path] by (auto simp: split_path_def path_segment_def)

lemma handle_client_replies:
  assumes "read_request ip c = (x, c1)" and "\<And>request g. handler request g \<noteq> None"
  obtains resp g' where "handle_client handler ip c g = Some (reply resp c1, g')"
proof (cases x)
  case (Inl e)
  then show ?thesis using that assms(1) by (simp add: handle_client_def)
next
  case (Inr y)
  show ?thesis
  proof (cases y)
    case (Inl resp)
    then show ?thesis using that assms(1) Inr by (simp add: handle_client_def)
  next
    case (Inr r)
    then have y: "x = Inr (Inr r)" using \<open>x = Inr y\<close> by simp
    obtain z g1 where "handler r g = Some (z, g1)" using assms(2) [of r g] by force
    then show ?thesis using that assms(1) y by (cases z) (simp_all add: handle_client_def)
  qed
qed

subsection \<open>Properties\<close>

text \<open>
  C17. Requests are read as they were written, however the network cuts them into pieces: if the bytes of
  a connection are those of a well-formed request (words in the request line, lower-case header
  names, header values without blanks around them, a body of at most 1 MiB whose length is announced),
  possibly with more bytes after it, the server reads exactly that request, every byte of the body
  included, and sends nothing before the handler is called.
\<close>

theorem request_roundtrip:
  assumes "well_formed_request r" and "no_gaps c" and "concat (incoming c) = render_request r @ extra"
  shows "\<exists>c'. read_request (req_remote_ip r) c = (Inr (Inr r), c') \<and> sent c' = sent c"
  using read_request_well_formed [OF assms] by blast

definition wire_request :: http_request where
  "wire_request = (sample_request ''PUT'' ''/v1/kv/a'' ''1'')
     \<lparr>req_headers := [(''authorization'', ''Bearer dev-secret''), (''content-length'', ''1'')]\<rparr>"

definition wire :: connection where
  "wire = \<lparr>incoming = [take 3 (render_request wire_request), drop 3 (render_request wire_request), ''more''],
     accepts = [], sent = [], conn_open = True\<rparr>"

lemma wire_request_ok: "well_formed_request wire_request"
proof -
  have "word_ok ''PUT''" "word_ok ''/v1/kv/a''" "word_ok ''HTTP/1.1''" by (simp_all add: word_ok_def isspace_def)
  moreover have "header_ok (''authorization'', ''Bearer dev-secret'')" "header_ok (''content-length'', ''1'')"
    by (simp_all add: header_ok_def word_ok_def isspace_def to_lower_def tolower_def trimmed_def blanks_def)
  moreover have "table_ok (req_headers wire_request)" by code_simp
  moreover have "length (join (request_head wire_request)) + 4 + 8192 \<le> max_request_size"
    by (simp add: wire_request_def sample_request_def request_head_def header_text_def crlf_def max_request_size_def)
  ultimately have "head_ok wire_request" by (simp add: head_ok_def wire_request_def sample_request_def)
  moreover have one: "nat_to_string 1 = ''1''" by (subst nat_to_string.simps) (simp add: digit_def char_of_def bit_numeral_rec bit_0)
  moreover have "announces (req_headers wire_request) (of_nat (length (req_body wire_request)))"
    using stoull_nat_to_string [of 1] one
    by (simp add: announces_def wire_request_def sample_request_def select_key_def)
  moreover have "length (req_body wire_request) = 1" by (simp add: wire_request_def sample_request_def)
  ultimately show ?thesis by (simp add: well_formed_request_def)
qed

lemma wire_pieces: "no_gaps wire" "concat (incoming wire) = render_request wire_request @ ''more''"
  by (simp_all add: no_gaps_def wire_def render_request_def wire_request_def sample_request_def)

theorem request_roundtrip_witness:
  "\<exists>c'. read_request ''127.0.0.1'' wire = (Inr (Inr wire_request), c') \<and> sent c' = []"
  using request_roundtrip [OF wire_request_ok wire_pieces] by (simp add: wire_request_def sample_request_def wire_def)

text \<open>
  C18. Whatever the peer sends, a request that reaches the handler has a method and a path without white
  space, one value for each header, and exactly as many bytes of body as its \<open>content-length\<close> header
  says (none without the header), at most 1 MiB. So the gateway's own limit on values is never exceeded.
\<close>

theorem request_is_bounded:
  assumes "read_request ip c = (Inr (Inr r), c')"
  shows "word_ok (req_method r) \<and> word_ok (req_path r) \<and> table_ok (req_headers r) \<and>
    announces (req_headers r) (of_nat (length (req_body r))) \<and> length (req_body r) \<le> 1024 * 1024"
  using read_request_bounds [OF assms] by blast

theorem request_is_bounded_witness:
  "\<exists>r c'. read_request ''127.0.0.1'' wire = (Inr (Inr r), c') \<and>
    word_ok (req_method r) \<and> word_ok (req_path r) \<and> length (req_body r) \<le> 1024 * 1024"
proof -
  obtain c' where c': "read_request ''127.0.0.1'' wire = (Inr (Inr wire_request), c')"
    using read_request_well_formed [OF wire_request_ok wire_pieces] by (auto simp: wire_request_def sample_request_def)
  from c' request_is_bounded [OF c'] show ?thesis by blast
qed




text \<open>
  Bytes that never contain the empty line which ends a header do not reach the handler: the
  connection is answered with 400 and one of two messages, and the state behind the handler is the same.
\<close>

lemma headerless_is_refused:
  assumes "find_str (crlf @ crlf) (concat (incoming c)) = None" and "accepts c = []"
  shows "\<exists>c' e. handle_client handler ip c g = Some (c', g) \<and> \<not> conn_open c' \<and>
    sent c' = sent c @ render_response (error_response e) \<and>
    e \<in> {Runtime_error ''failed to read request headers'', Runtime_error ''request too large''}"
proof -
  obtain e c1 where e: "read_headers [] c = (Inl e, c1)" "accepts c1 = accepts c" "sent c1 = sent c"
    "e \<in> {Runtime_error ''failed to read request headers'', Runtime_error ''request too large''}"
    using read_headers_missing [of "[]" c] assms(1) by auto
  then have "handle_client handler ip c g = Some (reply (error_response e) c1, g)"
    by (simp add: handle_client_def read_request_def bindE_def)
  then show ?thesis
    using e assms(2) reply_all [where c = c1 and resp = "error_response e"] by auto
qed

text \<open>
  C29. A request that announces a body of more than 1 MiB is answered with 413 without reading the body
  to its end, and the handler is not called.
\<close>

theorem oversized_body_is_refused:
  assumes "head_ok r" and "announces (req_headers r) n" and "n > 1024 * 1024"
    and "no_gaps c" and "concat (incoming c) = render_request r @ extra" and "accepts c = []"
  shows "\<exists>c' resp. handle_client handler (req_remote_ip r) c g = Some (c', g) \<and> \<not> conn_open c' \<and>
    sent c' = sent c @ render_response resp \<and> resp_status resp = 413"
proof -
  let ?resp = "HttpResponse\<lparr>resp_status := 413, resp_body := ''{\"error\":\"request body too large\"}''\<rparr>"
  obtain c1 where c1: "accepts c1 = accepts c" "sent c1 = sent c"
    "read_request (req_remote_ip r) c = (Inr (Inl ?resp), c1)"
    using read_request_start [OF assms(1,4,5,2)] assms(3) by (auto simp: ret_def)
  then have "handle_client handler (req_remote_ip r) c g = Some (reply ?resp c1, g)"
    by (simp add: handle_client_def)
  then show ?thesis
    using c1 assms(6) reply_all [where c = c1 and resp = ?resp] by (intro exI [of _ "reply ?resp c1"] exI [of _ ?resp]) simp
qed

theorem oversized_body_is_refused_witness:
  "\<exists>(r :: http_request) n c c' resp. announces (req_headers r) n \<and> n > 1024 * 1024 \<and> length (concat (incoming c)) < 200 \<and>
    handle_client (\<lambda>_ _. None) (req_remote_ip r) c (7 :: nat) = Some (c', 7) \<and>
    sent c' = render_response resp \<and> resp_status resp = 413"
proof -
  define r where "r = wire_request\<lparr>req_headers := [(''content-length'', ''2000000'')], req_body := []\<rparr>"
  let ?c = "\<lparr>incoming = [render_request r], accepts = [], sent = [], conn_open = True\<rparr>"
  have h: "header_ok (''content-length'', ''2000000'')"
    by (simp add: header_ok_def word_ok_def isspace_def to_lower_def tolower_def trimmed_def blanks_def)
  have size: "length (join (request_head r)) + 4 + 8192 \<le> max_request_size" "length (render_request r) < 200"
    by (simp_all add: r_def wire_request_def sample_request_def request_head_def render_request_def
        header_text_def crlf_def max_request_size_def)
  have r: "head_ok r"
    using h size(1) wire_request_ok by (simp add: r_def well_formed_request_def head_ok_def table_ok_def)
  have n: "announces (req_headers r) 2000000"
    by (simp add: r_def announces_def select_key_def stoull_def parse_decimal_def isspace_def isdigit_def
        digits_value_def digit_value_def Let_def)
  have c: "no_gaps ?c" "concat (incoming ?c) = render_request r @ []" "accepts ?c = []"
    by (simp_all add: no_gaps_def render_request_def)
  have big: "(2000000 :: 64 word) > 1024 * 1024" by simp
  obtain c' resp where "handle_client (\<lambda>_ _. None) (req_remote_ip r) ?c (7 :: nat) = Some (c', 7)"
    "sent c' = render_response resp" "resp_status resp = 413"
    using oversized_body_is_refused [OF r n big c, of "\<lambda>_ _. None" "7 :: nat"] by auto
  moreover have "length (concat (incoming ?c)) < 200" using size(2) by simp
  ultimately show ?thesis using n big by blast
qed

text \<open>
  C20. The head of every response of the gateway is clean: no header and no content type that it produces
  contains a line break, whatever the request held, so a client that splits the response at the first
  empty line finds exactly the body, whose length the \<open>Content-Length\<close> header gives.
\<close>

theorem gateway_responses_are_framed:
  assumes "handle rnd request g = Some (Inr resp, g')"
  shows "\<exists>i. find_str (crlf @ crlf) (render_response resp) = Some i \<and>
    drop (i + 4) (render_response resp) = resp_body resp"
  using response_framed [OF handle_response_ok [OF assms]] .

theorem gateway_responses_are_framed_witness:
  "\<exists>resp g' i. handle (\<lambda>x. x) (sample_request ''GET'' ''/healthz'' [])
      (Gateway \<lparr>shards = [], cluster_metrics = Metrics\<rparr> ''dev-secret'' 20 40 2 \<lparr>time = 0, ticks = []\<rparr>) = Some (Inr resp, g') \<and>
    find_str (crlf @ crlf) (render_response resp) = Some i \<and> drop (i + 4) (render_response resp) = ''{\"status\":\"ok\"}''"
proof -
  let ?g = "Gateway \<lparr>shards = [], cluster_metrics = Metrics\<rparr> ''dev-secret'' 20 40 2 \<lparr>time = 0, ticks = []\<rparr>"
  let ?r = "sample_request ''GET'' ''/healthz'' []"
  have "\<exists>resp g'. handle (\<lambda>x. x) ?r ?g = Some (Inr resp, g') \<and> resp_body resp = ''{\"status\":\"ok\"}''"
    by (simp add: handle_def admit_def finish_def now_def bindE_def getE_def ret_def Let_def sample_request_def
        Gateway_def count_gateway_def on_cluster_def zoom_def modifyE_def json_response_def)
  then obtain resp g' where h: "handle (\<lambda>x. x) ?r ?g = Some (Inr resp, g')" "resp_body resp = ''{\"status\":\"ok\"}''"
    by blast
  from gateway_responses_are_framed [OF h(1)] h show ?thesis by auto
qed

text \<open>
  C15. From the wire to the cluster: a connection that carries a well-formed, authorized \<open>PUT\<close> of a key of
  at most 512 bytes is answered with one complete response and closed. Either its status is 201 and the
  cluster holds the body under the key and is otherwise the same, or it is 429 or 503 and the cluster
  holds what it held.
\<close>

theorem put_over_http:
  assumes g: "gateway_holds n g m" and r: "well_formed_request r"
    and auth: "bearer r = Some (''Bearer '' @ api_key g)" and put: "req_method r = ''PUT''"
    and path: "split_path (req_path r) = [''v1'', ''kv'', key]" "length key \<le> 512"
    and c: "no_gaps c" "concat (incoming c) = render_request r @ extra" "accepts c = []" "sent c = []"
  shows "\<exists>c' g' resp. handle_client (handle rnd) (req_remote_ip r) c g = Some (c', g') \<and> \<not> conn_open c' \<and>
    sent c' = render_response resp \<and>
    (resp_status resp = 201 \<and> cluster_holds n (gw_cluster g') (m(route n key \<mapsto> req_body r)) \<or>
     resp_status resp \<in> {429, 503} \<and> cluster_holds n (gw_cluster g') m)"
proof -
  obtain c1 where c1: "read_request (req_remote_ip r) c = (Inr (Inr r), c1)" "accepts c1 = []" "sent c1 = []"
    using read_request_well_formed [OF r c(1,2)] c(3,4) by auto
  have key: "key \<noteq> []" using path(1) split_path_nonempty [of key "req_path r"] by simp
  obtain resp g' where h: "handle rnd r g = Some (Inr resp, g')"
    "resp_status resp = 201 \<and> cluster_holds n (gw_cluster g') (m(route n key \<mapsto> req_body r)) \<or>
     resp_status resp \<in> {429, 503} \<and> cluster_holds n (gw_cluster g') m"
    using put_through_gateway [OF g auth path(1) key path(2) put, of rnd] r by (auto simp: well_formed_request_def)
  then have "handle_client (handle rnd) (req_remote_ip r) c g = Some (reply resp c1, g')"
    using c1(1) by (simp add: handle_client_def)
  then show ?thesis using h(2) c1(2,3) reply_all [where c = c1 and resp = resp] by auto
qed

theorem put_over_http_witness:
  "\<exists>g c' g' resp. gateway_holds 4 g Map.empty \<and> handle_client (handle (\<lambda>x. x)) ''127.0.0.1'' wire g = Some (c', g') \<and>
    sent c' = render_response resp \<and>
    (resp_status resp = 201 \<and> cluster_holds 4 (gw_cluster g') (Map.empty(route 4 ''a'' \<mapsto> ''1'')) \<or>
     resp_status resp \<in> {429, 503} \<and> cluster_holds 4 (gw_cluster g') Map.empty)"
proof -
  obtain c where c: "gateway_holds 4 (Gateway c ''dev-secret'' 20 40 2 \<lparr>time = 0, ticks = []\<rparr>) Map.empty"
    using fresh_gateway [of 4 3 2 0 Metrics "''dev-secret''" 20 40 "\<lparr>time = 0, ticks = []\<rparr>"] by auto
  let ?g = "Gateway c ''dev-secret'' 20 40 2 \<lparr>time = 0, ticks = []\<rparr>"
  have r: "bearer wire_request = Some (''Bearer '' @ api_key ?g)" "req_method wire_request = ''PUT''"
    "req_body wire_request = ''1''" "req_remote_ip wire_request = ''127.0.0.1''"
    by (simp_all add: wire_request_def sample_request_def Gateway_def select_key_def)
  have path: "split_path (req_path wire_request) = [''v1'', ''kv'', ''a'']" "length ''a'' \<le> 512"
    by (simp_all add: wire_request_def sample_request_def) code_simp
  have w: "accepts wire = []" "sent wire = []" by (simp_all add: wire_def)
  from put_over_http [OF c wire_request_ok r(1,2) path wire_pieces w, of "\<lambda>x. x"] c r(3,4)
  show ?thesis by (intro exI [of _ ?g]) auto
qed

end
