(* ===== verification/Http_Service.thy ===== *)
theory Http_Service
  imports Http_Props
begin

text \<open>
  The whole service: on a cluster whose engines report no errors, the gateway answers every request, keeps
  its shape, and changes the content at most by one acknowledged write. The locale \<open>http_handler\<close> is what
  the HTTP server needs of its handler; the gateway is interpreted as one, which gives the claims on
  whole connections.
\<close>

subsection \<open>What no request changes\<close>

definition gateway_shape :: "gateway \<Rightarrow> nat \<times> 64 word \<times> string" where
  "gateway_shape g = (length (breakers g), max_retries g, api_key g)"

abbreviation same_shape :: "gateway \<Rightarrow> gateway \<Rightarrow> bool" where
  "same_shape g g' \<equiv> gateway_shape g' = gateway_shape g"

abbreviation keeps_shape :: "(gateway, 'a) op \<Rightarrow> bool" where
  "keeps_shape \<equiv> frames gateway_shape"

lemma keeps_after: "same_shape g g1 \<Longrightarrow> keeps_shape m \<Longrightarrow> same_shape g (snd (m g1))"
  by (simp add: frames_def)

lemma keeps_basic [intro]:
  "keeps_shape now" "keeps_shape (sleep_for d)" "keeps_shape (on_cluster m)" "keeps_shape (count_gateway h)"
  by (auto simp: frames_def gateway_shape_def now_def sleep_for_def modifyE_def on_cluster_def count_gateway_def zoom_def
      Let_def split: prod.splits)

lemma keeps_breaker_for [intro]: "keeps_shape (breaker_for i f)"
  by (auto simp: frames_def gateway_shape_def breaker_for_def bindE_def getE_def modifyE_def ret_def throwE_def
      split: prod.splits)

lemma keeps_parts [intro]:
  "keeps_shape (breaker_allows i)" "keeps_shape (breaker_fails i)" "keeps_shape (after_failure i a)"
  "keeps_shape (respond operation key r)" "keeps_shape (finish started resp)" "keeps_shape (admin_replica ac sh rid)"
  "keeps_shape (admin_elect sh)"
  unfolding breaker_allows_def breaker_fails_def after_failure_def respond_def finish_def admin_replica_def
    admin_elect_def Let_def
  by (intro frames_bindE frames_catchE frames_if frames_basic keeps_basic keeps_breaker_for)+

lemma keeps_admit [intro]: "keeps_shape (admit rnd request)"
  unfolding admit_def allowed_by_rate_limit_def Let_def
  by (intro frames_bindE frames_if frames_option frames_basic keeps_basic)
    (auto simp: gateway_shape_def intro!: frames_modifyE split: prod.splits)

lemma attempts_shape:
  assumes "attempts call i a g = Some y"
  shows "same_shape g (snd y)"
  using assms
proof (rule attempts.raw_induct [rotated, where P = "\<lambda>call i a g y. same_shape g (snd y)"])
  fix f call i a g y
  assume IH: "\<And>call i a g y. f call i a g = Some y \<Longrightarrow> same_shape g (snd y)"
    and body: "(case on_cluster call g of (Inl e, g1) \<Rightarrow> Some (Inl e, g1)
      | (Inr result, g1) \<Rightarrow>
          if res_status result < 500
          then Some (bindE (breaker_for i (\<lambda>b. ((), record_success b))) (\<lambda>_. ret result) g1)
          else (case after_failure i a g1 of (Inl e, g2) \<Rightarrow> Some (Inl e, g2)
            | (Inr _, g2) \<Rightarrow> if a + 1 \<le> max_retries g2 then f call i (a + 1) g2
              else Some (Inr result, g2))) = Some y"
  obtain r g1 where 1: "on_cluster call g = (r, g1)" by force
  have s1: "same_shape g g1" using framesD [OF keeps_basic(3) 1] .
  obtain z g2 where 2: "after_failure i a g1 = (z, g2)" by force
  have s2: "same_shape g g2" using s1 framesD [OF keeps_parts(3) 2] by simp
  show "same_shape g (snd y)"
  proof (cases r)
    case (Inl e)
    then show ?thesis using body 1 s1 by auto
  next
    case (Inr result)
    have "keeps_shape (bindE (breaker_for i (\<lambda>b. ((), record_success b))) (\<lambda>_. ret result))" by blast
    then have ok: "same_shape g (snd (bindE (breaker_for i (\<lambda>b. ((), record_success b))) (\<lambda>_. ret result) g1))"
      by (rule keeps_after [OF s1])
    have again: "same_shape g (snd y)" if "f call i (a + 1) g2 = Some y"
      using s2 IH [OF that] by simp
    have failed: "same_shape g (snd y)" if "(case after_failure i a g1 of (Inl e, g2) \<Rightarrow> Some (Inl e, g2)
        | (Inr _, g2) \<Rightarrow> if a + 1 \<le> max_retries g2 then f call i (a + 1) g2 else Some (Inr result, g2)) = Some y"
      using that s2 again unfolding 2 by (cases z; cases "a + 1 \<le> max_retries g2") (simp_all, (metis snd_conv)+)
    show ?thesis
    proof (cases "res_status result < 500")
      case True
      then show ?thesis using body ok by (simp add: 1 Inr)
    next
      case False
      then show ?thesis using body by (intro failed) (simp add: 1 Inr)
    qed
  qed
qed

lemma execute_shape:
  assumes "execute_with_resilience operation key val g = Some y"
  shows "same_shape g (snd y)"
proof -
  let ?i = "shard_for_key (length (shards (gw_cluster g))) key"
  obtain b g1 where 1: "breaker_allows ?i g = (b, g1)" by force
  have s: "same_shape g g1" using framesD [OF keeps_parts(1) 1] .
  have "keeps_shape (bindE (count_gateway inc_circuit_open) (\<lambda>_. ret (json_response 503 z)))" for z by blast
  then have opened: "same_shape g (snd (bindE (count_gateway inc_circuit_open) (\<lambda>_. ret (json_response 503 z)) g1))" for z
    by (rule keeps_after [OF s])
  have answered: "same_shape g g2 \<and> same_shape g (snd (respond operation key r g2))"
    if "attempts (cluster_call operation key val) ?i 0 g1 = Some (x, g2)" for x r g2
  proof -
    have g2: "same_shape g g2" using s attempts_shape [OF that] by simp
    then show ?thesis using keeps_after [OF g2 keeps_parts(4)] by blast
  qed
  show ?thesis
    using assms 1 s opened answered
    by (auto simp: execute_with_resilience_def Let_def split: sum.splits if_splits option.splits)
qed

lemma routes_shape:
  assumes "routes request g = Some y"
  shows "same_shape g (snd y)"
proof -
  have all: "same_shape g (snd (m g))" if "keeps_shape m" for m :: "(gateway, http_response) op"
    using that by (simp add: frames_def)
  have kv: "same_shape g (snd y)" if "kv_route request key g = Some y" for key
  proof -
    have count: "same_shape g (snd (count_gateway f g))" for f
      using keeps_basic(4) by (simp add: frames_def)
    have e: "same_shape g (snd y)" if "execute_with_resilience operation k val (snd (count_gateway f g)) = Some y"
      for operation k val f
      using count execute_shape [OF that] by simp
    have r: "same_shape g (snd y)" if "Some (ret resp g) = Some y" for resp
      using that by (auto simp: ret_def)
    show ?thesis
      using that e r unfolding kv_route_def total_def by (auto split: if_splits)
  qed
  have "keeps_shape (bindE (on_cluster cluster_status_json) (\<lambda>j. ret (json_response 200 j)))" by blast
  then show ?thesis
    using assms kv all keeps_parts(6,7) frames_basic(1) [of gateway_shape]
    by (auto simp: routes_def Let_def total_def split: if_splits)
qed

lemma handle_shape:
  assumes "handle rnd request g = Some y"
  shows "same_shape g (snd y)"
proof -
  let ?m = "bindE now (\<lambda>started. bindE (admit rnd request) (\<lambda>x. ret (started, x)))"
  obtain x g1 where 1: "?m g = (x, g1)" by force
  have "keeps_shape ?m" by blast
  then have s: "same_shape g g1" using 1 by (rule framesD)
  have fin: "same_shape g (snd (finish started resp g2))" if "same_shape g g2" for started resp g2
    using that keeps_parts(5) by (rule keeps_after)
  have r: "same_shape g (snd z)" if "routes request g1 = Some z" for z
    using s routes_shape [OF that] by simp
  show ?thesis
    using assms 1 s fin r by (auto simp: handle_def split: sum.splits option.splits)
qed

subsection \<open>Every request is answered\<close>

lemma foldE_keeps:
  assumes "\<And>x acc s. x \<in> set xs \<Longrightarrow> I s \<Longrightarrow> \<exists>y s'. f x acc s = (Inr y, s') \<and> I s'" and "I s"
  shows "\<exists>y s'. foldE f xs acc s = (Inr y, s') \<and> I s'"
  using assms
proof (induction xs arbitrary: acc s)
  case (Cons x xs)
  obtain y s1 where 1: "f x acc s = (Inr y, s1)" "I s1" using Cons.prems by force
  then obtain z s' where "foldE f xs y s1 = (Inr z, s')" "I s'"
    using Cons.IH [of s1 y] Cons.prems(1) by auto
  then show ?case using 1 by (simp add: bindE_def)
qed (simp add: ret_def)

lemma replica_status_returns: "storage_ok r \<Longrightarrow> \<exists>j. replica_status_json r = (Inr j, r)"
proof -
  assume "storage_ok r"
  then have "runs replica_status_json (\<lambda>_ r'. r' = r) r"
    by (simp add: replica_status_json_def wp_last_log_index)
  then show ?thesis by (auto simp: runs_iff)
qed

lemma shard_status_returns:
  assumes "stores_ok s"
  shows "\<exists>j. shard_status_json s = (Inr j, s)"
proof -
  let ?f = "\<lambda>i out. bindE (on_replica i replica_status_json) (\<lambda>j. ret (out @ (if i > 0 then '','' else []) @ j))"
  have "\<exists>y s'. ?f i out s1 = (Inr y, s') \<and> s' = s" if i: "i \<in> set [0..<length (replicas s)]" and "s1 = s" for i out s1
  proof -
    have "storage_ok (replicas s ! i)" using assms i by (simp add: stores_ok_def)
    then obtain j where "replica_status_json (replicas s ! i) = (Inr j, replicas s ! i)"
      using replica_status_returns by blast
    then show ?thesis using \<open>s1 = s\<close> by (simp add: on_replica_def zoom_def bindE_def ret_def)
  qed
  then obtain y where "foldE ?f [0..<length (replicas s)] [] s = (Inr y, s)"
    using foldE_keeps [of "[0..<length (replicas s)]" "\<lambda>s'. s' = s" ?f s "[]"] by blast
  then show ?thesis by (simp add: shard_status_json_def bindE_def getE_def ret_def)
qed

lemma shard_holds_stores: "shard_holds s m \<Longrightarrow> stores_ok s"
  by (auto simp: shard_holds_def implements_def shard_inv_def stores_ok_def settled_def replica_inv_def state_ok_def)

lemma cluster_status_returns:
  assumes "cluster_holds n c m"
  shows "\<exists>j c'. cluster_status_json c = (Inr j, c') \<and> cluster_holds n c' m"
proof -
  let ?f = "\<lambda>i out. bindE (on_shard i shard_status_json) (\<lambda>j. ret (out @ (if i > 0 then '','' else []) @ j))"
  have "\<exists>y c'. ?f i out c1 = (Inr y, c') \<and> cluster_holds n c' m"
    if i: "i \<in> set [0..<length (shards c)]" and c1: "cluster_holds n c1 m" for i out c1
  proof -
    have i: "i < n" using i assms by (simp add: cluster_holds_def)
    let ?s = "(shards c1 ! i)\<lparr>shard_metrics := cluster_metrics c1\<rparr>"
    obtain j where "shard_status_json ?s = (Inr j, ?s)"
      using shard_status_returns shard_holds_stores [OF cluster_shard [OF c1 i]] by blast
    then obtain c' where "on_shard i shard_status_json c1 = (Inr j, c')" "cluster_holds n c' m"
      using on_shard_step [where f = shard_status_json, OF c1 i _ cluster_shard [OF c1 i] same_update] by blast
    then show ?thesis by (simp add: bindE_def ret_def)
  qed
  then obtain y c' where "foldE ?f [0..<length (shards c)] [] c = (Inr y, c')" "cluster_holds n c' m"
    using foldE_keeps [of "[0..<length (shards c)]" "\<lambda>c. cluster_holds n c m" ?f c "[]"] assms by blast
  then show ?thesis by (simp add: cluster_status_json_def bindE_def getE_def ret_def)
qed

text \<open>What a request may do to the content: nothing, or one acknowledged write or delete.\<close>

definition one_write :: "nat \<Rightarrow> (nat \<times> string \<Rightarrow> string option) \<Rightarrow> http_response \<Rightarrow> (nat \<times> string \<Rightarrow> string option) \<Rightarrow> bool" where
  "one_write n m resp m' \<longleftrightarrow>
     m' = m \<or> resp_status resp \<in> {200, 201} \<and> (\<exists>key v. m' = m(route n key := v))"

lemma one_write_refl [simp]: "one_write n m resp m"
  by (simp add: one_write_def)

lemma admin_returns:
  assumes "cluster_holds n (gw_cluster g) m"
  shows "\<exists>resp g'. admin_replica a sh rid g = (Inr resp, g') \<and> cluster_holds n (gw_cluster g') m"
    and "\<exists>resp g'. admin_elect sh g = (Inr resp, g') \<and> cluster_holds n (gw_cluster g') m"
proof -
  have fail: "\<exists>b c'. cluster_fail_replica i rid c = (Inr b, c') \<and> cluster_holds n c' m"
    and recover: "\<exists>b c'. cluster_recover_replica i rid c = (Inr b, c') \<and> cluster_holds n c' m"
    and elect: "\<exists>b c'. cluster_elect i c = (Inr b, c') \<and> cluster_holds n c' m"
    if "cluster_holds n c m" for i c
    using cluster_kv.admin_law [OF that, of "Shard_action i (Fail_replica rid)"]
      cluster_kv.admin_law [OF that, of "Shard_action i (Recover_replica rid)"]
      cluster_kv.admin_law [OF that, of "Shard_action i Elect_leader"] by (auto simp: cluster_admin_def)
  show "\<exists>resp g'. admin_replica a sh rid g = (Inr resp, g') \<and> cluster_holds n (gw_cluster g') m"
  proof (cases "stoull sh")
    case (Inl e)
    then show ?thesis using assms by (simp add: admin_replica_def catchE_def bindE_def liftE_def ret_def)
  next
    case (Inr sid)
    obtain b c' where "(if a = ''fail'' then cluster_fail_replica (unat sid) rid
        else cluster_recover_replica (unat sid) rid) (gw_cluster g) = (Inr b, c')" "cluster_holds n c' m"
      using fail [OF assms, of "unat sid"] recover [OF assms, of "unat sid"] by (cases "a = ''fail''") auto
    then show ?thesis
      using Inr by (simp add: admin_replica_def catchE_def bindE_def liftE_def ret_def on_cluster_def zoom_def)
  qed
  show "\<exists>resp g'. admin_elect sh g = (Inr resp, g') \<and> cluster_holds n (gw_cluster g') m"
  proof (cases "stoull sh")
    case (Inl e)
    then show ?thesis using assms by (simp add: admin_elect_def catchE_def bindE_def liftE_def ret_def)
  next
    case (Inr sid)
    obtain b c' where "cluster_elect (unat sid) (gw_cluster g) = (Inr b, c')" "cluster_holds n c' m"
      using elect [OF assms] by blast
    then show ?thesis
      using Inr by (simp add: admin_elect_def catchE_def bindE_def liftE_def ret_def on_cluster_def zoom_def)
  qed
qed

lemma kv_execute_returns:
  assumes g: "gateway_holds n g m"
  shows "\<exists>resp g' m'. execute_with_resilience op key val g = Some (Inr resp, g') \<and>
    cluster_holds n (gw_cluster g') m' \<and> one_write n m resp m'"
proof -
  let ?L = "\<lambda>r c. \<exists>m'. cluster_holds n c m' \<and> (m' = m \<or> res_status r \<in> {200, 201} \<and> (\<exists>v. m' = m(route n key := v)))"
  have call: "\<exists>r c'. cluster_call op key val c = (Inr r, c') \<and>
      (refused r \<and> cluster_holds n c' m \<or> res_status r < 500 \<and> ?L r c')" if "cluster_holds n c m" for c
    using cluster_kv.put_law [OF that, of key val] cluster_kv.erase_law [OF that, of key]
      cluster_kv.get_law [OF that, of key]
    by (fastforce simp: cluster_call_def read_answer_def split: option.splits)
  have L: "?L r c = ?L r c'" if "shards c = shards c'" for r c c'
    using cluster_holds_shards [OF that] by simp
  obtain resp g' where e: "execute_with_resilience op key val g = Some (Inr resp, g')"
    "resp_status resp = 503 \<and> cluster_holds n (gw_cluster g') m \<or>
     (\<exists>r. res_status r < 500 \<and> ?L r (gw_cluster g') \<and> resp_status resp = res_status r \<and>
        resp_body resp = result_body op key r)"
    using execute_returns [where H = "\<lambda>c. cluster_holds n c m" and L = ?L, OF call cluster_holds_shards]
      gateway_holdsD [OF g] by blast
  then show ?thesis unfolding one_write_def by metis
qed


lemma routes_return:
  assumes g: "gateway_holds n g m"
  shows "\<exists>resp g' m'. routes request g = Some (Inr resp, g') \<and>
    cluster_holds n (gw_cluster g') m' \<and> one_write n m resp m'" (is "?returns (routes request)")
proof -
  have c: "cluster_holds n (gw_cluster g) m" using g by (simp add: gateway_holds_def)
  have plain: "?returns (total (ret resp))" for resp
    using c by (auto simp: total_def ret_def)
  have count: "gateway_holds n (snd (count_gateway f g)) m" for f
    using g cluster_holds_shards [of "(gw_cluster g)\<lparr>cluster_metrics := f (cluster_metrics (gw_cluster g))\<rparr>" "gw_cluster g"]
    by (simp add: gateway_holds_def count_gateway_def on_cluster_def zoom_def modifyE_def)
  have run: "?returns (\<lambda>g. execute_with_resilience op key val (snd (count_gateway f g)))" for op key val f
    using kv_execute_returns [OF count] by blast
  have kv: "?returns (kv_route request key)" for key
    unfolding kv_route_def using plain run by (simp split: if_splits)
  obtain j c' where "cluster_status_json (gw_cluster g) = (Inr j, c')" "cluster_holds n c' m"
    using cluster_status_returns [OF c] by blast
  then have status: "?returns (total (bindE (on_cluster cluster_status_json) (\<lambda>j. ret (json_response 200 j))))"
    by (auto simp: total_def bindE_def ret_def on_cluster_def zoom_def)
  have admin: "?returns (total (admin_replica a sh rid))" "?returns (total (admin_elect sh))" for a sh rid
    using admin_returns(1) [OF c, of a sh rid] admin_returns(2) [OF c, of sh] one_write_refl
    unfolding total_def by (elim exE conjE; intro exI [of _ m] exI conjI; simp)+
  show ?thesis
    unfolding routes_def Let_def using plain kv status admin by (simp split: if_splits)
qed

lemma handle_returns:
  assumes g: "gateway_holds n g m"
  shows "\<exists>resp g' m'. handle rnd request g = Some (Inr resp, g') \<and> gateway_holds n g' m' \<and>
    one_write n m resp m' \<and> response_ok resp"
proof -
  let ?m = "bindE now (\<lambda>started. bindE (admit rnd request) (\<lambda>x. ret (started, x)))"
  obtain started x g1 where g1: "?m g = (Inr (started, x), g1)" "max_retries g1 = max_retries g"
      "shards (gw_cluster g1) = shards (gw_cluster g)" "breakers g1 = breakers g"
    using admit_retries [of rnd request g] by (auto simp: runs_iff)
  have h1: "gateway_holds n g1 m"
    using g g1 cluster_holds_shards [OF g1(3)] by (simp add: gateway_holds_def)
  obtain resp g2 m' where r: "(x = Inl resp \<and> g2 = g1 \<and> m' = m) \<or> (\<exists>u. x = Inr u) \<and> routes request g1 = Some (Inr resp, g2)"
    "cluster_holds n (gw_cluster g2) m'" "one_write n m resp m'"
    using routes_return [OF h1, of request] h1 by (cases x) (auto simp: gateway_holds_def)
  obtain resp' g3 where fin: "finish started resp g2 = (Inr resp', g3)" "resp_status resp' = resp_status resp"
      "shards (gw_cluster g3) = shards (gw_cluster g2)"
    using wp_finish [of started resp g2] by blast
  have h: "handle rnd request g = Some (Inr resp', g3)"
    using r(1) g1(1) fin(1) by (auto simp: handle_def)
  have "cluster_holds n (gw_cluster g3) m'" using r(2) cluster_holds_shards [OF fin(3)] by simp
  moreover have "same_shape g g3" using handle_shape [OF h] by simp
  moreover have "one_write n m resp' m'" using r(3) fin(2) by (simp add: one_write_def)
  ultimately show ?thesis
    using h handle_response_ok [OF h] g by (auto simp: gateway_holds_def gateway_shape_def)
qed

subsection \<open>Serving connections\<close>

text \<open>
  Each accepted connection is handled by a thread of its own; \<open>serve_connections\<close> runs the threads in the
  order of the list, and the claims hold for every list.
\<close>

fun serve_connections :: "'g handler \<Rightarrow> (string \<times> connection) list \<Rightarrow> 'g \<Rightarrow> (connection list \<times> 'g) option" where
  "serve_connections handler [] g = Some ([], g)"
| "serve_connections handler ((ip, c) # cs) g =
    (case handle_client handler ip c g of
       None \<Rightarrow> None
     | Some (c', g1) \<Rightarrow>
         (case serve_connections handler cs g1 of
            None \<Rightarrow> None
          | Some (cs', g') \<Rightarrow> Some (c' # cs', g')))"

text \<open>A connection that was answered with (what the peer took of) one response, and closed.\<close>

definition answered :: "connection \<Rightarrow> connection \<Rightarrow> bool" where
  "answered c c' \<longleftrightarrow> \<not> conn_open c' \<and> (\<exists>resp n. response_ok resp \<and>
     sent c' = sent c @ take n (render_response resp) \<and>
     (accepts c = [] \<longrightarrow> sent c' = sent c @ render_response resp))"

lemma reply_answered:
  assumes "accepts c1 = accepts c" and "sent c1 = sent c" and "response_ok resp"
  shows "answered c (reply resp c1)"
  using assms reply_all [where c = c1 and resp = resp] reply_prefix [of resp c1] unfolding answered_def by metis

lemma server_responses_ok: "response_ok (error_response e)" "response_ok (HttpResponse\<lparr>resp_status := st, resp_body := b\<rparr>)"
  by (simp_all add: error_response_def HttpResponse_def response_ok_def plain_def)

lemma read_request_refusal:
  assumes "read_request ip c = (Inr (Inl resp), c1)"
  shows "response_ok resp"
proof -
  have body: "wp (read_body k b) Q (\<lambda>_ _. True) c1" if "\<And>x c2. Q x c2" for k b Q c1
    using that by (auto simp: wp_def split: prod.splits sum.splits)
  have head: "wp (read_headers b) Q (\<lambda>_ _. True) c1" if "\<And>x c2. Q x c2" for b Q c1
    using that by (auto simp: wp_def split: prod.splits sum.splits)
  have "wp (read_request ip) (\<lambda>x _. \<forall>resp. x = Inl resp \<longrightarrow> response_ok resp) (\<lambda>_ _. True) c"
    using server_responses_ok(2)
    by (auto simp: read_request_def Let_def intro!: head body split: prod.splits sum.splits)
  then show ?thesis using assms by (simp add: wp_def)
qed

text \<open>What the server needs of its handler: it returns a response with a clean head and stays usable.\<close>

locale http_handler =
  fixes handler :: "'g handler" and ok :: "'g \<Rightarrow> bool"
  assumes returns: "ok g \<Longrightarrow> \<exists>resp g'. handler request g = Some (Inr resp, g') \<and> ok g' \<and> response_ok resp"
begin

lemma client_answered:
  assumes "ok g"
  shows "\<exists>c' g'. handle_client handler ip c g = Some (c', g') \<and> ok g' \<and> answered c c'"
proof -
  obtain x c1 where x: "read_request ip c = (x, c1)" by force
  note frame = read_request_frame [OF x]
  consider e where "x = Inl e" | resp where "x = Inr (Inl resp)" | r where "x = Inr (Inr r)"
    by (cases x) (auto, metis sum.exhaust)
  then show ?thesis
  proof cases
    case 1
    then show ?thesis
      using x assms frame reply_answered server_responses_ok(1) by (fastforce simp: handle_client_def)
  next
    case 2
    then have "response_ok resp" using read_request_refusal x by blast
    then show ?thesis using 2 x assms frame reply_answered by (fastforce simp: handle_client_def)
  next
    case 3
    obtain resp g' where "handler r g = Some (Inr resp, g')" "ok g'" "response_ok resp"
      using returns [OF assms] by blast
    then show ?thesis using 3 x frame reply_answered by (fastforce simp: handle_client_def)
  qed
qed

lemma all_answered:
  "ok g \<Longrightarrow> \<exists>cs' g'. serve_connections handler cs g = Some (cs', g') \<and> ok g' \<and> list_all2 answered (map snd cs) cs'"
proof (induction cs arbitrary: g)
  case (Cons p cs)
  obtain ip c where p: "p = (ip, c)" by force
  obtain c' g1 where 1: "handle_client handler ip c g = Some (c', g1)" "ok g1" "answered c c'"
    using client_answered [OF Cons.prems] by blast
  then show ?case using Cons.IH [OF 1(2)] p by auto
qed simp

end

interpretation gw: http_handler "handle rnd" "\<lambda>g. \<exists>m. gateway_holds n g m" for rnd n
proof unfold_locales
  fix g request
  assume "\<exists>m. gateway_holds n g m"
  then show "\<exists>resp g'. handle rnd request g = Some (Inr resp, g') \<and> (\<exists>m. gateway_holds n g' m) \<and> response_ok resp"
    using handle_returns by blast
qed

text \<open>
  C16. The service stays up: start a cluster of any size on an empty disk, with any retry count but the
  largest, and let any number of connections come in, carrying any bytes in any pieces (requests on keys,
  administration of replicas, or nothing that makes sense). As long as the engines report no errors,
  every connection is answered and closed, and the gateway still has a cluster that holds some content.
\<close>

theorem service_stays_up:
  assumes "0 < n" and "0 < r" and "rtrs \<noteq> - 1"
    and "Cluster n r None (\<lambda>_. None) (\<lambda>_. []) t0 Metrics = Inr c"
  shows "\<exists>cs' g'. serve_connections (handle rnd) cs (Gateway c key rate bst rtrs ck) = Some (cs', g') \<and>
    list_all2 answered (map snd cs) cs' \<and> (\<exists>m. gateway_holds n g' m)"
proof -
  have "\<exists>m. gateway_holds n (Gateway c key rate bst rtrs ck) m"
    using fresh_gateway [OF assms(1-3), of t0 Metrics key rate bst ck] assms(4) by auto
  then show ?thesis using gw.all_answered [of n] by blast
qed

theorem service_stays_up_witness:
  "\<exists>c cs' g'. Cluster 4 3 None (\<lambda>_. None) (\<lambda>_. []) 0 Metrics = Inr c \<and>
    serve_connections (handle (\<lambda>x. x)) [(''127.0.0.1'', wire), (''127.0.0.1'', wire\<lparr>incoming := [''??'']\<rparr>)]
      (Gateway c ''dev-secret'' 20 40 2 \<lparr>time = 0, ticks = []\<rparr>) = Some (cs', g') \<and> (\<exists>m. gateway_holds 4 g' m)"
proof -
  have p: "0 < (4 :: nat)" "0 < (3 :: nat)" "2 \<noteq> (- 1 :: 64 word)" by simp_all
  obtain c where c: "Cluster 4 3 None (\<lambda>_. None) (\<lambda>_. []) 0 Metrics = Inr c"
    using Cluster_fresh [OF p(1,2)] by blast
  from service_stays_up [OF p c] c show ?thesis by blast
qed

end
