(* ===== verification/Gateway_Threads.thy ===== *)
theory Gateway_Threads
  imports Http_Service
begin

text \<open>
  Concurrent requests at the gateway (\<^verbatim>\<open>src/gateway.cpp\<close>). The server handles each connection in a thread of
  its own. A thread in \<open>Gateway::handle\<close> works on shared state only inside critical sections: the rate
  limiter under \<open>rate_mutex_\<close>, a breaker under \<open>breaker_mutex_\<close>, a call on a shard under the mutex of the shard;
  the clock and the atomic counters are read and changed next to them. \<open>thread\<close> are the places between two
  critical sections, with the local variables that are still needed; \<open>critical\<close> is the next section, made
  from the operations of \<open>Gateway\<close>. A pool of threads runs by entering one section at a time, in any order.
  (Counters that are increased after a section belong to it here; the status of the cluster, which visits
  one shard after the other, is one section.)

  Running alone, a thread is \<open>handle\<close>. Running together, every thread ends, and the calls on the cluster
  form one history that explains all responses.
\<close>

subsection \<open>Threads\<close>

text \<open>
  What the routes do with an admitted request: a call on the cluster behind the breaker of its shard, with
  the counter of the call, or one operation.
\<close>

type_synonym dispatched = "(metrics \<Rightarrow> metrics) \<times> string \<times> string \<times> string + (gateway, http_response) op"

definition kv_dispatch :: "http_request \<Rightarrow> string \<Rightarrow> dispatched" where
  "kv_dispatch request key =
    (if key = [] \<or> length key > 512
     then Inr (ret (json_response 400 ''{\"error\":\"key must be 1-512 characters\"}''))
     else if req_method request = ''GET'' then Inl (inc_get, ''GET'', key, [])
     else if req_method request = ''PUT''
     then (if length (req_body request) > 1024 * 1024
           then Inr (ret (json_response 413 ''{\"error\":\"value exceeds 1 MiB\"}''))
           else Inl (inc_put, ''PUT'', key, req_body request))
     else if req_method request = ''DELETE'' then Inl (inc_delete, ''DELETE'', key, [])
     else Inr (ret (json_response 405 ''{\"error\":\"method not allowed\"}'')))"

definition dispatch :: "http_request \<Rightarrow> dispatched" where
  "dispatch request =
    (let parts = split_path (req_path request)
     in if length parts = 3 \<and> parts ! 0 = ''v1'' \<and> parts ! 1 = ''kv'' then kv_dispatch request (parts ! 2)
        else if req_path request = ''/admin/cluster'' \<and> req_method request = ''GET''
        then Inr (bindE (on_cluster cluster_status_json) (\<lambda>j. ret (json_response 200 j)))
        else if length parts = 4 \<and> parts ! 0 = ''admin'' \<and> (parts ! 1 = ''fail'' \<or> parts ! 1 = ''recover'') \<and>
          req_method request = ''POST''
        then Inr (admin_replica (parts ! 1) (parts ! 2) (parts ! 3))
        else if length parts = 3 \<and> parts ! 0 = ''admin'' \<and> parts ! 1 = ''elect'' \<and> req_method request = ''POST''
        then Inr (admin_elect (parts ! 2))
        else Inr (ret (json_response 404 ''{\"error\":\"route not found\"}'')))"

definition run_dispatched :: "dispatched \<Rightarrow> gateway \<Rightarrow> ((exn + http_response) \<times> gateway) option" where
  "run_dispatched d g =
    (case d of
       Inl (f, op, key, val) \<Rightarrow> execute_with_resilience op key val (snd (count_gateway f g))
     | Inr m \<Rightarrow> Some (m g))"

lemma run_dispatched_simps [simp]:
  "run_dispatched (Inl (f, op, key, val)) g = execute_with_resilience op key val (snd (count_gateway f g))"
  "run_dispatched (Inr m) g = Some (m g)"
  by (simp_all add: run_dispatched_def)

lemma kv_route_dispatch: "kv_route request key g = run_dispatched (kv_dispatch request key) g"
  by (simp add: kv_route_def kv_dispatch_def total_def)

lemma routes_dispatch: "routes request g = run_dispatched (dispatch request) g"
  by (simp only: routes_def dispatch_def Let_def if_distribR if_distrib [of "\<lambda>d. run_dispatched d g"]
      kv_route_dispatch total_def run_dispatched_simps)

lemma dispatch_operation:
  assumes "dispatch request = Inr m"
  obtains resp where "m = ret resp"
  | "m = bindE (on_cluster cluster_status_json) (\<lambda>j. ret (json_response 200 j))"
  | action shard rid where "m = admin_replica action shard rid"
  | shard where "m = admin_elect shard"
  using assms unfolding dispatch_def kv_dispatch_def Let_def by (auto split: if_splits)

datatype thread =
    Arrived http_request
  | Started int http_request
  | Routed int http_request
  | Checking int string string string
  | Trying int string string string "64 word"
  | Recording int string string string "64 word" operation_result
  | Answering int string string operation_result
  | Finishing int http_response
  | Returned "exn + http_response"

definition shard_of :: "string \<Rightarrow> gateway \<Rightarrow> nat" where
  "shard_of key g = shard_for_key (length (shards (gw_cluster g))) key"

text \<open>The critical section that a thread is about to enter, and the state it is in afterwards.\<close>

fun critical :: "(rat \<Rightarrow> rat) \<Rightarrow> thread \<Rightarrow> (gateway, thread) op" where
  "critical rnd (Arrived request) = bindE now (\<lambda>t. ret (Started t request))"
| "critical rnd (Started t request) =
     bindE (admit rnd request) (\<lambda>x. ret (case x of Inl resp \<Rightarrow> Finishing t resp | Inr _ \<Rightarrow> Routed t request))"
| "critical rnd (Routed t request) =
    (case dispatch request of
       Inl (f, op, key, val) \<Rightarrow> bindE (count_gateway f) (\<lambda>_. ret (Checking t op key val))
     | Inr m \<Rightarrow> bindE m (\<lambda>resp. ret (Finishing t resp)))"
| "critical rnd (Checking t op key val) =
     bindE (getE (shard_of key)) (\<lambda>i.
     bindE (breaker_allows i) (\<lambda>allowed.
     if allowed then ret (Trying t op key val 0)
     else bindE (count_gateway inc_circuit_open) (\<lambda>_. ret (Finishing t (json_response 503 (breaker_open_body i))))))"
| "critical rnd (Trying t op key val a) =
     bindE (on_cluster (cluster_call op key val)) (\<lambda>r. ret (Recording t op key val a r))"
| "critical rnd (Recording t op key val a r) =
     bindE (getE (shard_of key)) (\<lambda>i.
     if res_status r < 500
     then bindE (breaker_for i (\<lambda>b. ((), record_success b))) (\<lambda>_. ret (Answering t op key r))
     else bindE (after_failure i a) (\<lambda>_.
          bindE (getE max_retries) (\<lambda>n.
          ret (if a + 1 \<le> n then Trying t op key val (a + 1) else Answering t op key r))))"
| "critical rnd (Answering t op key r) = bindE (respond op key r) (\<lambda>resp. ret (Finishing t resp))"
| "critical rnd (Finishing t resp) = bindE (finish t resp) (\<lambda>x. ret (Returned (Inr x)))"
| "critical rnd (Returned x) = ret (Returned x)"

text \<open>An exception ends the thread.\<close>

definition thread_step :: "(rat \<Rightarrow> rat) \<Rightarrow> thread \<times> gateway \<Rightarrow> thread \<times> gateway" where
  "thread_step rnd s =
    (case critical rnd (fst s) (snd s) of
       (Inl e, g) \<Rightarrow> (Returned (Inl e), g)
     | (Inr thr, g) \<Rightarrow> (thr, g))"

subsection \<open>One thread alone\<close>

text \<open>What a thread in each state has still to do, by the functions of the gateway.\<close>

definition andthen :: "((exn + 'a) \<times> gateway) option \<Rightarrow> ('a \<Rightarrow> gateway \<Rightarrow> ((exn + 'b) \<times> gateway) option) \<Rightarrow>
    ((exn + 'b) \<times> gateway) option" where
  "andthen p k = (case p of None \<Rightarrow> None | Some (Inl e, g) \<Rightarrow> Some (Inl e, g) | Some (Inr x, g) \<Rightarrow> k x g)"

lemma andthen_simps [simp]:
  "andthen None k = None" "andthen (Some (Inl e, g)) k = Some (Inl e, g)" "andthen (Some (Inr x, g)) k = k x g"
  by (simp_all add: andthen_def)

fun resume :: "(rat \<Rightarrow> rat) \<Rightarrow> nat \<Rightarrow> thread \<Rightarrow> gateway \<Rightarrow> ((exn + http_response) \<times> gateway) option" where
  "resume rnd n (Arrived request) g = handle rnd request g"
| "resume rnd n (Started t request) g = andthen (Some (admit rnd request g)) (\<lambda>x g1.
     case x of Inl resp \<Rightarrow> Some (finish t resp g1)
     | Inr _ \<Rightarrow> andthen (routes request g1) (\<lambda>resp g2. Some (finish t resp g2)))"
| "resume rnd n (Routed t request) g = andthen (routes request g) (\<lambda>resp g2. Some (finish t resp g2))"
| "resume rnd n (Checking t op key val) g =
     andthen (execute_with_resilience op key val g) (\<lambda>resp g2. Some (finish t resp g2))"
| "resume rnd n (Trying t op key val a) g =
     andthen (andthen (attempts (cluster_call op key val) (shard_for_key n key) a g) (\<lambda>r g1. Some (respond op key r g1)))
       (\<lambda>resp g2. Some (finish t resp g2))"
| "resume rnd n (Recording t op key val a r) g =
     andthen (andthen
       (if res_status r < 500
        then Some (bindE (breaker_for (shard_for_key n key) (\<lambda>b. ((), record_success b))) (\<lambda>_. ret r) g)
        else andthen (Some (after_failure (shard_for_key n key) a g)) (\<lambda>_ g2.
          if a + 1 \<le> max_retries g2 then attempts (cluster_call op key val) (shard_for_key n key) (a + 1) g2
          else Some (Inr r, g2))) (\<lambda>r g1. Some (respond op key r g1)))
       (\<lambda>resp g2. Some (finish t resp g2))"
| "resume rnd n (Answering t op key r) g = andthen (Some (respond op key r g)) (\<lambda>resp g2. Some (finish t resp g2))"
| "resume rnd n (Finishing t resp) g = Some (finish t resp g)"
| "resume rnd n (Returned x) g = Some (x, g)"

subsection \<open>The number of shards\<close>

abbreviation shard_count :: "gateway \<Rightarrow> nat" where
  "shard_count g \<equiv> length (shards (gw_cluster g))"

lemma frames_on_shard [intro!]: "frames (\<lambda>c. length (shards c)) (on_shard i m)"
  by (auto simp: frames_def on_shard_def zoom_def split: prod.splits)

lemma frames_on_cluster [intro!]: "frames (\<lambda>c. length (shards c)) m \<Longrightarrow> frames shard_count (on_cluster m)"
  unfolding on_cluster_def by (rule frames_zoom) simp_all

lemma frames_cluster [intro, simp]:
  "frames (\<lambda>c. length (shards c)) (cluster_call op key val)"
  "frames (\<lambda>c. length (shards c)) cluster_status_json"
  "frames (\<lambda>c. length (shards c)) (cluster_fail_replica sid rid)"
  "frames (\<lambda>c. length (shards c)) (cluster_recover_replica sid rid)"
  "frames (\<lambda>c. length (shards c)) (cluster_elect sid)"
  by (auto simp: cluster_call_def cluster_get_def cluster_put_def cluster_erase_def cluster_status_json_def
      cluster_fail_replica_def cluster_recover_replica_def cluster_elect_def)

lemma frames_gateway [intro, simp]:
  "frames shard_count now" "frames shard_count (count_gateway h)" "frames shard_count (sleep_for d)"
  "frames shard_count (breaker_for i k)"
  by (auto simp: frames_def now_def count_gateway_def on_cluster_def zoom_def modifyE_def sleep_for_def breaker_for_def Let_def
     bindE_def getE_def throwE_def ret_def split: prod.splits)

lemma frames_sections [intro, simp]:
  "frames shard_count (breaker_allows i)" "frames shard_count (after_failure i a)" "frames shard_count (respond op key r)"
  "frames shard_count (finish t resp)" "frames shard_count (admin_replica x y z)" "frames shard_count (admin_elect x)"
  by (auto simp: breaker_allows_def after_failure_def breaker_fails_def respond_def finish_def admin_replica_def admin_elect_def Let_def)

lemma frames_admit [intro, simp]: "frames shard_count (admit rnd request)"
  by (auto simp: admit_def allowed_by_rate_limit_def Let_def intro!: frames_modifyE split: prod.splits)

lemma frames_dispatch: "dispatch request = Inr m \<Longrightarrow> frames shard_count m"
  by (erule dispatch_operation) auto

lemma frames_critical: "frames shard_count (critical rnd thr)"
proof (cases thr)
  case (Routed t request)
  then show ?thesis using frames_dispatch [of request] by (auto split: sum.splits)
qed auto

lemma keeps_dispatch: "dispatch request = Inr m \<Longrightarrow> keeps_shape m"
  by (erule dispatch_operation) (auto intro: keeps_parts keeps_basic)

lemma keeps_critical: "keeps_shape (critical rnd thr)"
proof (cases thr)
  case (Routed t request)
  then show ?thesis using keeps_dispatch [of request] by (auto split: sum.splits)
qed (simp_all, (intro frames_bindE frames_if frames_basic keeps_basic keeps_parts keeps_breaker_for keeps_admit)+)

lemma thread_step_frame:
  assumes "thread_step rnd (thr, g) = (thr', g')"
  shows "shard_count g' = shard_count g \<and> same_shape g g'"
proof -
  obtain x where "critical rnd thr g = (x, g')"
    using assms by (auto simp: thread_step_def split: prod.splits sum.splits)
  then show ?thesis using framesD [OF frames_critical] framesD [OF keeps_critical] by fastforce
qed

lemmas op_defs = bindE_def ret_def getE_def modifyE_def

lemma resume_step:
  assumes "shard_count g = n"
  shows "resume rnd n thr g = (case thread_step rnd (thr, g) of (thr', g') \<Rightarrow> resume rnd n thr' g')"
proof (cases thr)
  case (Arrived request)
  then show ?thesis
    by (auto simp: thread_step_def op_defs handle_def now_def andthen_def Let_def split: prod.splits sum.splits option.splits)
next
  case (Started t request)
  then show ?thesis
    by (auto simp: thread_step_def op_defs split: prod.splits sum.splits)
next
  case (Routed t request)
  then show ?thesis
    by (auto simp: thread_step_def op_defs routes_dispatch count_gateway_def on_cluster_def zoom_def split: prod.splits sum.splits)
next
  case (Checking t op key val)
  then show ?thesis
    using assms
    by (auto simp: thread_step_def op_defs shard_of_def execute_with_resilience_def Let_def andthen_def split: prod.splits sum.splits option.splits)
next
  case (Trying t op key val a)
  show ?thesis
    unfolding Trying resume.simps attempts.simps [of "cluster_call op key val" _ a g]
    by (auto simp: thread_step_def op_defs andthen_def split: prod.splits sum.splits option.splits)
next
  case (Recording t op key val a r)
  then show ?thesis
    using assms
    by (auto simp: thread_step_def op_defs shard_of_def andthen_def split: prod.splits sum.splits option.splits)
next
  case (Answering t op key r)
  then show ?thesis
    by (auto simp: thread_step_def op_defs andthen_def split: prod.splits sum.splits option.splits)
next
  case (Finishing t resp)
  then show ?thesis
    by (auto simp: thread_step_def op_defs andthen_def split: prod.splits sum.splits option.splits)
next
  case (Returned x)
  then show ?thesis by (simp add: thread_step_def ret_def)
qed

subsection \<open>Threads end\<close>

text \<open>How many critical sections a thread has before it at most, when the retry count is \<open>n\<close>.\<close>

fun rank :: "64 word \<Rightarrow> thread \<Rightarrow> nat" where
  "rank n (Arrived _) = 2 * unat n + 8"
| "rank n (Started _ _) = 2 * unat n + 7"
| "rank n (Routed _ _) = 2 * unat n + 6"
| "rank n (Checking _ _ _ _) = 2 * unat n + 5"
| "rank n (Trying _ _ _ _ a) = 2 * (unat n - unat a) + 4"
| "rank n (Recording _ _ _ _ a _) = 2 * (unat n - unat a) + 3"
| "rank n (Answering _ _ _ _) = 2"
| "rank n (Finishing _ _) = 1"
| "rank n (Returned _) = 0"

fun in_range :: "64 word \<Rightarrow> thread \<Rightarrow> bool" where
  "in_range n (Trying _ _ _ _ a) \<longleftrightarrow> a \<le> n"
| "in_range n (Recording _ _ _ _ a _) \<longleftrightarrow> a \<le> n"
| "in_range n _ \<longleftrightarrow> True"

lemma rank_Returned: "rank n thr = 0 \<longleftrightarrow> (\<exists>x. thr = Returned x)"
  by (cases thr) auto

lemma rank_step:
  assumes "n \<noteq> - 1" and "max_retries g = n" and "in_range n thr" and "thread_step rnd (thr, g) = (thr', g')"
  shows "in_range n thr' \<and> rank n thr' \<le> rank n thr - 1"
proof (cases thr)
  case (Routed t request)
  then show ?thesis
    using assms(4) by (auto simp: thread_step_def op_defs split: prod.splits sum.splits)
next
  case (Recording t op key val a r)
  have n: "max_retries g1 = n" if "after_failure (shard_of key g) a g = (y, g1)" for y g1
    using framesD [OF keeps_parts(3) that] assms(2) by (simp add: gateway_shape_def)
  have next_a: "unat n - unat (a + 1) = unat n - unat a - 1 \<and> 0 < unat n - unat a" if "a + 1 \<le> n"
    using word_succ [of a n] that assms(1,3) Recording by (auto simp: word_le_nat_alt)
  show ?thesis
    using assms(4) Recording n next_a
    by (auto simp: thread_step_def op_defs split: prod.splits sum.splits if_splits)
qed (use assms in \<open>auto simp: thread_step_def op_defs split: prod.splits sum.splits if_splits\<close>)

lemma thread_step_Returned [simp]: "thread_step rnd (Returned x, g) = (Returned x, g)"
  by (simp add: thread_step_def ret_def)

lemma alone_returns:
  assumes "n \<noteq> - 1"
  shows "max_retries g = n \<Longrightarrow> in_range n thr \<Longrightarrow> rank n thr \<le> k \<Longrightarrow>
    \<exists>x g'. (thread_step rnd ^^ k) (thr, g) = (Returned x, g')"
proof (induction k arbitrary: thr g)
  case 0
  then show ?case by (simp add: rank_Returned)
next
  case (Suc k)
  obtain thr1 g1 where 1: "thread_step rnd (thr, g) = (thr1, g1)" by force
  have "in_range n thr1" "rank n thr1 \<le> k" using rank_step [OF assms Suc.prems(1,2) 1] Suc.prems(3) by auto
  moreover have "max_retries g1 = n" using thread_step_frame [OF 1] Suc.prems(1) by (simp add: gateway_shape_def)
  ultimately show ?case using Suc.IH 1 by (simp add: funpow_swap1)
qed

lemma alone_resumes:
  assumes "shard_count g = n"
  shows "(thread_step rnd ^^ k) (thr, g) = (thr', g') \<Longrightarrow> resume rnd n thr g = resume rnd n thr' g' \<and> shard_count g' = n"
proof (induction k arbitrary: thr' g')
  case (Suc k)
  obtain thr1 g1 where 1: "(thread_step rnd ^^ k) (thr, g) = (thr1, g1)" by force
  then have "thread_step rnd (thr1, g1) = (thr', g')" using Suc.prems by simp
  then show ?case
    using Suc.IH [OF 1] resume_step [of g1 n rnd thr1] thread_step_frame by (metis case_prod_conv)
qed (use assms in simp)

subsection \<open>Many threads\<close>

text \<open>
  \<open>history\<close> records the calls on the cluster in the order in which they take effect: the thread, the call and
  its result.
\<close>

type_synonym kv_call = "string \<times> string \<times> string"

record pool =
  threads :: "thread list"
  pool_gateway :: gateway
  history :: "(nat \<times> kv_call \<times> operation_result) list"

fun completed :: "nat \<Rightarrow> thread \<Rightarrow> thread \<Rightarrow> (nat \<times> kv_call \<times> operation_result) list" where
  "completed i (Trying _ op key val _) (Recording _ _ _ _ _ r) = [(i, (op, key, val), r)]"
| "completed i _ _ = []"

definition start_pool :: "http_request list \<Rightarrow> gateway \<Rightarrow> pool" where
  "start_pool reqs g = \<lparr>threads = map Arrived reqs, pool_gateway = g, history = []\<rparr>"

inductive pool_step :: "(rat \<Rightarrow> rat) \<Rightarrow> pool \<Rightarrow> nat \<Rightarrow> pool \<Rightarrow> bool" for rnd where
  critical_section: "i < length (threads p) \<Longrightarrow> thread_step rnd (threads p ! i, pool_gateway p) = (thr, g) \<Longrightarrow>
    pool_step rnd p i \<lparr>threads = (threads p)[i := thr], pool_gateway = g,
      history = history p @ completed i (threads p ! i) thr\<rparr>"

inductive_cases pool_stepE: "pool_step rnd p i q"

inductive pool_run :: "(rat \<Rightarrow> rat) \<Rightarrow> pool \<Rightarrow> nat list \<Rightarrow> pool \<Rightarrow> bool" for rnd where
  idle: "pool_run rnd p [] p"
| schedule: "pool_run rnd p is q \<Longrightarrow> pool_step rnd q i r \<Longrightarrow> pool_run rnd p (is @ [i]) r"

lemma pool_run_exists:
  assumes "set is \<subseteq> {..<length (threads p)}"
  shows "\<exists>q. pool_run rnd p is q \<and> length (threads q) = length (threads p)"
  using assms
proof (induction "is" rule: rev_induct)
  case (snoc i "is")
  then obtain q where q: "pool_run rnd p is q" "length (threads q) = length (threads p)" by auto
  obtain thr g where "thread_step rnd (threads q ! i, pool_gateway q) = (thr, g)" by force
  with snoc.prems q show ?case
    by (fastforce intro: pool_run.schedule [OF q(1) critical_section])
qed (auto intro: idle)

text \<open>Each step of a thread brings it closer to its end, whatever the other threads did in between.\<close>

lemma pool_run_rank:
  assumes "pool_run rnd p is q" and "p = start_pool reqs g" and "max_retries g = n" and "n \<noteq> - 1"
  shows "max_retries (pool_gateway q) = n \<and> length (threads q) = length reqs \<and>
    (\<forall>i < length reqs. in_range n (threads q ! i) \<and>
      rank n (threads q ! i) \<le> 2 * unat n + 8 - count_list is i)"
  using assms
proof (induction rule: pool_run.induct)
  case (idle p)
  then show ?case by (simp add: start_pool_def)
next
  case (schedule p "is" q i r)
  note IH = schedule.IH [OF schedule.prems]
  from schedule.hyps(2) obtain thr g1 where r: "i < length (threads q)"
    "thread_step rnd (threads q ! i, pool_gateway q) = (thr, g1)" "threads r = (threads q)[i := thr]" "pool_gateway r = g1"
    by (auto elim!: pool_stepE)
  have step: "in_range n thr" "rank n thr \<le> rank n (threads q ! i) - 1"
    using rank_step [OF schedule.prems(3) _ _ r(2)] IH r(1) by auto
  moreover have "max_retries g1 = n" using thread_step_frame [OF r(2)] IH by (simp add: gateway_shape_def)
  ultimately show ?case using IH r by (fastforce simp: nth_list_update)
qed

subsection \<open>Concurrent requests take effect one after the other\<close>

definition take_effect :: "nat \<Rightarrow> nat \<times> kv_call \<times> operation_result \<Rightarrow> (nat \<times> string \<Rightarrow> string option) \<Rightarrow>
    nat \<times> string \<Rightarrow> string option" where
  "take_effect n = (\<lambda>(_, (op, key, val), r) m.
    if \<not> res_ok r \<or> op = ''GET'' then m
    else if op = ''PUT'' then m(route n key \<mapsto> val)
    else m(route n key := None))"

definition justified :: "nat \<Rightarrow> (nat \<times> string \<Rightarrow> string option) \<Rightarrow> nat \<times> kv_call \<times> operation_result \<Rightarrow> bool" where
  "justified n m = (\<lambda>(_, (op, key, val), r). refused r \<or>
    (if op = ''GET'' then read_answer (m (route n key)) r
     else res_ok r \<and> res_status r = (if op = ''PUT'' then 201 else 200)))"

fun legal :: "nat \<Rightarrow> (nat \<times> string \<Rightarrow> string option) \<Rightarrow> (nat \<times> kv_call \<times> operation_result) list \<Rightarrow> bool" where
  "legal n m [] \<longleftrightarrow> True"
| "legal n m (e # h) \<longleftrightarrow> justified n m e \<and> legal n (take_effect n e m) h"

lemma legal_snoc: "legal n m (h @ [e]) \<longleftrightarrow> legal n m h \<and> justified n (fold (take_effect n) h m) e"
  by (induction h arbitrary: m) simp_all

definition own :: "nat \<Rightarrow> (nat \<times> kv_call \<times> operation_result) list \<Rightarrow> (kv_call \<times> operation_result) list" where
  "own i h = map snd (filter (\<lambda>e. fst e = i) h)"

lemma own_simps [simp]:
  "own i [] = []" "own i (h @ h') = own i h @ own i h'" "own i [(j, e)] = (if j = i then [e] else [])"
  by (simp_all add: own_def)

definition asks :: "http_request \<Rightarrow> kv_call \<Rightarrow> bool" where
  "asks request c \<longleftrightarrow> (\<exists>f. dispatch request = Inl (f, c))"

text \<open>The calls of a thread: those before the last one were refused.\<close>

definition retried :: "kv_call \<Rightarrow> (kv_call \<times> operation_result) list \<Rightarrow> bool" where
  "retried c hs \<longleftrightarrow> (\<forall>e \<in> set hs. fst e = c \<and> refused (snd e))"

definition response_from :: "http_request \<Rightarrow> (kv_call \<times> operation_result) list \<Rightarrow> http_response \<Rightarrow> bool" where
  "response_from request hs resp \<longleftrightarrow>
    (case dispatch request of
       Inr _ \<Rightarrow> hs = []
     | Inl (_, op, key, val) \<Rightarrow>
         hs = [] \<and> resp_status resp \<in> {401, 429, 503} \<or>
         (\<exists>hs' r. hs = hs' @ [((op, key, val), r)] \<and> retried (op, key, val) hs' \<and>
            resp_status resp = res_status r \<and> resp_body resp = result_body op key r))"

fun thread_ok :: "http_request \<Rightarrow> (kv_call \<times> operation_result) list \<Rightarrow> thread \<Rightarrow> bool" where
  "thread_ok request hs (Arrived q) \<longleftrightarrow> q = request \<and> hs = []"
| "thread_ok request hs (Started t q) \<longleftrightarrow> q = request \<and> hs = []"
| "thread_ok request hs (Routed t q) \<longleftrightarrow> q = request \<and> hs = []"
| "thread_ok request hs (Checking t op key val) \<longleftrightarrow> asks request (op, key, val) \<and> hs = []"
| "thread_ok request hs (Trying t op key val a) \<longleftrightarrow> asks request (op, key, val) \<and> retried (op, key, val) hs"
| "thread_ok request hs (Recording t op key val a r) \<longleftrightarrow> asks request (op, key, val) \<and>
     (refused r \<or> res_status r < 500) \<and> (\<exists>hs'. hs = hs' @ [((op, key, val), r)] \<and> retried (op, key, val) hs')"
| "thread_ok request hs (Answering t op key r) \<longleftrightarrow>
     (\<exists>val hs'. asks request (op, key, val) \<and> hs = hs' @ [((op, key, val), r)] \<and> retried (op, key, val) hs')"
| "thread_ok request hs (Finishing t resp) \<longleftrightarrow> response_from request hs resp"
| "thread_ok request hs (Returned x) \<longleftrightarrow> (\<exists>resp. x = Inr resp \<and> response_from request hs resp)"

text \<open>What the sections do on a gateway in front of a consistent cluster.\<close>

lemma gateway_holds_frame:
  assumes "gateway_holds n g m" and "shards (gw_cluster g') = shards (gw_cluster g)" and "same_shape g g'"
  shows "gateway_holds n g' m"
  using assms cluster_holds_shards [OF assms(2)] by (simp add: gateway_holds_def gateway_shape_def)

lemma dispatch_kv_path:
  assumes "dispatch request = Inl (f, c)"
  shows "req_path request \<notin> {''/healthz'', ''/metrics''}"
proof -
  have "split_path ''/healthz'' = [''healthz'']" "split_path ''/metrics'' = [''metrics'']" by code_simp+
  then show ?thesis using assms by (auto simp: dispatch_def Let_def split: if_splits)
qed

lemma admit_section:
  "runs (admit rnd request) (\<lambda>x g'. shards (gw_cluster g') = shards (gw_cluster g) \<and>
     (\<forall>resp. x = Inl resp \<longrightarrow> req_path request \<notin> {''/healthz'', ''/metrics''} \<longrightarrow> resp_status resp \<in> {401, 429})) g"
  by (auto simp: admit_def allowed_by_rate_limit_def Let_def json_response_def split: option.splits prod.splits)

lemma dispatch_section:
  assumes "dispatch request = Inr op" and "cluster_holds n (gw_cluster g) m"
  shows "\<exists>resp g'. op g = (Inr resp, g') \<and> cluster_holds n (gw_cluster g') m"
proof -
  let ?P = "\<lambda>op. \<exists>resp g'. op g = (Inr resp, g') \<and> cluster_holds n (gw_cluster g') m"
  have plain: "?P (ret resp)" for resp using assms(2) by (simp add: ret_def)
  obtain j c' where "cluster_status_json (gw_cluster g) = (Inr j, c')" "cluster_holds n c' m"
    using cluster_status_returns [OF assms(2)] by blast
  then have status: "?P (bindE (on_cluster cluster_status_json) (\<lambda>j. ret (json_response 200 j)))"
    by (simp add: bindE_def ret_def on_cluster_def zoom_def)
  from assms(1) show ?thesis
    by (rule dispatch_operation) (use plain status admin_returns [OF assms(2)] in \<open>simp_all only:\<close>)
qed

lemma call_section:
  assumes "cluster_holds n c m"
  shows "\<exists>r c'. cluster_call op key val c = (Inr r, c') \<and> justified n m (i, (op, key, val), r) \<and>
    cluster_holds n c' (take_effect n (i, (op, key, val), r) m)"
  using cluster_kv.put_law [OF assms, of key val] cluster_kv.erase_law [OF assms, of key]
    cluster_kv.get_law [OF assms, of key]
  by (fastforce simp: cluster_call_def justified_def take_effect_def refused_def)

lemma justified_result: "justified n m (i, (op, key, val), r) \<Longrightarrow> refused r \<or> res_status r < 500"
  by (auto simp: justified_def read_answer_def split: if_splits option.splits)

definition step_good :: "nat \<Rightarrow> (nat \<times> string \<Rightarrow> string option) \<Rightarrow> http_request \<Rightarrow> (kv_call \<times> operation_result) list \<Rightarrow>
    nat \<Rightarrow> thread \<Rightarrow> thread \<Rightarrow> gateway \<Rightarrow> bool" where
  "step_good n m request hs i thr thr' g' \<longleftrightarrow>
     completed i thr thr' = [] \<and> gateway_holds n g' m \<and> thread_ok request hs thr' \<or>
     (\<exists>e. completed i thr thr' = [(i, e)] \<and> justified n m (i, e) \<and> gateway_holds n g' (take_effect n (i, e) m) \<and>
        thread_ok request (hs @ [e]) thr')"

text \<open>A section that leaves the content alone.\<close>

abbreviation quiet :: "nat \<Rightarrow> (nat \<times> string \<Rightarrow> string option) \<Rightarrow> http_request \<Rightarrow> (kv_call \<times> operation_result) list \<Rightarrow>
    (rat \<Rightarrow> rat) \<Rightarrow> thread \<Rightarrow> gateway \<Rightarrow> bool" where
  "quiet n m request hs rnd thr g \<equiv>
     runs (critical rnd thr) (\<lambda>thr' g'. cluster_holds n (gw_cluster g') m \<and> thread_ok request hs thr') g"

lemma quiet_good:
  assumes g: "gateway_holds n g m" and "\<And>thr'. completed i thr thr' = []" and "quiet n m request hs rnd thr g"
    and "thread_step rnd (thr, g) = (thr', g')"
  shows "step_good n m request hs i thr thr' g'"
proof -
  have "cluster_holds n (gw_cluster g') m \<and> thread_ok request hs thr'"
    using assms(3,4) by (auto simp: thread_step_def wp_def split: prod.splits sum.splits)
  moreover have "same_shape g g'" using thread_step_frame [OF assms(4)] by simp
  ultimately show ?thesis
    using g assms(2) by (simp add: step_good_def gateway_holds_def gateway_shape_def)
qed

lemma holds_same:
  "gateway_holds n g m \<Longrightarrow> shards c = shards (gw_cluster g) \<Longrightarrow> cluster_holds n c m"
  using cluster_holds_shards [of c "gw_cluster g"] by (simp add: gateway_holds_def)

lemma breaker_in_range: "gateway_holds n g m \<Longrightarrow> shard_of key g < length (breakers g)"
  using gateway_holdsD [of n g m] by (simp add: shard_of_def)

lemma quiet_started:
  assumes "gateway_holds n g m" and "thread_ok request hs (Started t q)"
  shows "quiet n m request hs rnd (Started t q) g"
  unfolding critical.simps
  by (rule wp_seq [OF admit_section])
    (use assms holds_same dispatch_kv_path [of q] in \<open>auto simp: response_from_def split: sum.splits\<close>)

lemma quiet_routed:
  assumes "gateway_holds n g m" and "thread_ok request hs (Routed t q)"
  shows "quiet n m request hs rnd (Routed t q) g"
proof (cases "dispatch q")
  case (Inl d)
  obtain f op key val where "d = (f, op, key, val)" by (cases d)
  then show ?thesis using Inl assms holds_same by (auto simp: asks_def)
next
  case (Inr op)
  then obtain resp g1 where "op g = (Inr resp, g1)" "cluster_holds n (gw_cluster g1) m"
    using dispatch_section [OF Inr] gateway_holdsD [OF assms(1)] by blast
  then show ?thesis using Inr assms(2) by (auto simp: wp_def response_from_def op_defs)
qed

lemma quiet_checking:
  assumes "gateway_holds n g m" and "thread_ok request hs (Checking t op key val)"
  shows "quiet n m request hs rnd (Checking t op key val) g"
proof -
  have "runs (breaker_allows (shard_of key g)) (\<lambda>_ g1. gw_cluster g1 = gw_cluster g) g"
    using breaker_allows_runs [OF breaker_in_range [OF assms(1), of key]] by (auto simp: runs_iff)
  then show ?thesis
    unfolding critical.simps wp_bindE wp_getE
    by (rule wp_mono)
      (use assms holds_same in \<open>auto simp: asks_def response_from_def json_response_def retried_def\<close>)
qed

lemma quiet_recording:
  assumes "gateway_holds n g m" and "thread_ok request hs (Recording t op key val a r)"
  shows "quiet n m request hs rnd (Recording t op key val a r) g"
proof (cases "res_status r < 500")
  case True
  then show ?thesis
    using assms holds_same breaker_in_range [OF assms(1)] by (auto simp: wp_breaker_for)
next
  case False
  have "runs (after_failure (shard_of key g) a) (\<lambda>_ g1. shards (gw_cluster g1) = shards (gw_cluster g)) g"
    using wp_after_failure [OF breaker_in_range [OF assms(1), of key], of a] by (auto simp: runs_iff)
  then have "runs (bindE (after_failure (shard_of key g) a) (\<lambda>_. bindE (getE max_retries) (\<lambda>k.
      ret (if a + 1 \<le> k then Trying t op key val (a + 1) else Answering t op key r))))
      (\<lambda>thr' g'. cluster_holds n (gw_cluster g') m \<and> thread_ok request hs thr') g"
    by (rule wp_seq) (use False assms holds_same in \<open>auto simp: retried_def\<close>)
  then show ?thesis using False by simp
qed

lemma quiet_end:
  assumes "gateway_holds n g m"
  shows "thread_ok request hs (Answering t op key r) \<Longrightarrow> quiet n m request hs rnd (Answering t op key r) g"
    and "thread_ok request hs (Finishing t resp) \<Longrightarrow> quiet n m request hs rnd (Finishing t resp) g"
proof -
  show "thread_ok request hs (Answering t op key r) \<Longrightarrow> quiet n m request hs rnd (Answering t op key r) g"
    using holds_same [OF assms] by (auto simp: respond_def response_from_def asks_def json_response_def)
  obtain resp' g1 where "finish t resp g = (Inr resp', g1)" "resp_status resp' = resp_status resp"
    "resp_body resp' = resp_body resp" "shards (gw_cluster g1) = shards (gw_cluster g)"
    using wp_finish [of t resp g] by blast
  then show "thread_ok request hs (Finishing t resp) \<Longrightarrow> quiet n m request hs rnd (Finishing t resp) g"
    using holds_same [OF assms] by (auto simp: wp_def op_defs response_from_def split: sum.splits)
qed

lemma call_good:
  assumes "gateway_holds n g m" and "thread_ok request hs (Trying t op key val a)"
    and "thread_step rnd (Trying t op key val a, g) = (thr', g')"
  shows "step_good n m request hs i (Trying t op key val a) thr' g'"
proof -
  obtain r c' where r: "cluster_call op key val (gw_cluster g) = (Inr r, c')" "justified n m (i, (op, key, val), r)"
    "cluster_holds n c' (take_effect n (i, (op, key, val), r) m)"
    using call_section gateway_holdsD [OF assms(1)] by blast
  then have "thr' = Recording t op key val a r" "g' = g\<lparr>gw_cluster := c'\<rparr>"
    using assms(3) by (simp_all add: thread_step_def op_defs on_cluster_def zoom_def)
  then show ?thesis
    using r assms(1,2) justified_result [OF r(2)] by (auto simp: step_good_def gateway_holds_def)
qed

lemma step_is_good:
  assumes g: "gateway_holds n g m" and ok: "thread_ok request hs thr" and step: "thread_step rnd (thr, g) = (thr', g')"
  shows "step_good n m request hs i thr thr' g'"
proof (cases "\<exists>t op key val a. thr = Trying t op key val a")
  case True
  then show ?thesis using call_good g ok step by blast
next
  case False
  then have "quiet n m request hs rnd thr g"
    using ok quiet_started [OF g] quiet_routed [OF g] quiet_checking [OF g] quiet_recording [OF g] quiet_end [OF g]
      holds_same [OF g]
    by (cases thr) (simp_all del: critical.simps add: critical.simps(1,9))
  moreover have "completed i thr thr1 = []" for thr1 using False by (cases thr) simp_all
  ultimately show ?thesis using quiet_good [OF g _ _ step] by blast
qed

definition consistent :: "nat \<Rightarrow> (nat \<times> string \<Rightarrow> string option) \<Rightarrow> http_request list \<Rightarrow> pool \<Rightarrow> bool" where
  "consistent n m reqs q \<longleftrightarrow>
     gateway_holds n (pool_gateway q) (fold (take_effect n) (history q) m) \<and> legal n m (history q) \<and>
     length (threads q) = length reqs \<and>
     (\<forall>i < length reqs. thread_ok (reqs ! i) (own i (history q)) (threads q ! i))"

lemma pool_step_consistent:
  assumes q: "consistent n m reqs q" and "pool_step rnd q i r"
  shows "consistent n m reqs r"
proof -
  from assms(2) obtain thr g where r: "i < length (threads q)"
    "thread_step rnd (threads q ! i, pool_gateway q) = (thr, g)" "threads r = (threads q)[i := thr]" "pool_gateway r = g"
    "history r = history q @ completed i (threads q ! i) thr"
    by (auto elim!: pool_stepE)
  let ?m = "fold (take_effect n) (history q) m"
  have "step_good n ?m (reqs ! i) (own i (history q)) i (threads q ! i) thr g"
    using q r by (intro step_is_good [OF _ _ r(2)]) (auto simp: consistent_def)
  then consider "completed i (threads q ! i) thr = []" "gateway_holds n g ?m" "thread_ok (reqs ! i) (own i (history q)) thr"
    | e where "completed i (threads q ! i) thr = [(i, e)]" "justified n ?m (i, e)"
      "gateway_holds n g (take_effect n (i, e) ?m)" "thread_ok (reqs ! i) (own i (history q) @ [e]) thr"
    unfolding step_good_def by blast
  then show ?thesis
  proof cases
    case 1
    then show ?thesis using q r by (auto simp: consistent_def nth_list_update)
  next
    case 2
    then show ?thesis using q r by (auto simp: consistent_def nth_list_update legal_snoc)
  qed
qed

lemma pool_run_consistent:
  "pool_run rnd p is q \<Longrightarrow> consistent n m reqs p \<Longrightarrow> consistent n m reqs q"
  by (induction rule: pool_run.induct) (auto intro: pool_step_consistent)

lemma start_consistent: "gateway_holds n g m \<Longrightarrow> consistent n m reqs (start_pool reqs g)"
  by (simp add: consistent_def start_pool_def)

lemma pool_returns:
  assumes "pool_run rnd (start_pool reqs g) is q" and "max_retries g \<noteq> - 1" and "i < length reqs"
    and "2 * unat (max_retries g) + 8 \<le> count_list is i"
  shows "\<exists>x. threads q ! i = Returned x"
proof -
  have "rank (max_retries g) (threads q ! i) \<le> 2 * unat (max_retries g) + 8 - count_list is i"
    using pool_run_rank [OF assms(1) refl refl assms(2)] assms(3) by blast
  then have "rank (max_retries g) (threads q ! i) = 0" using assms(4) by simp
  then show ?thesis by (simp only: rank_Returned)
qed

subsection \<open>Properties\<close>

text \<open>
  C22. The decomposition into critical sections is the program: a thread that runs alone comes to its end
  after at most \<open>2 * max_retries + 8\<close> sections, with the response (or exception) and in the state that
  \<open>Gateway::handle\<close> gives for the request, for every retry count but the largest and under every schedule of
  engine errors.
\<close>

theorem thread_alone_is_handle:
  assumes "max_retries g \<noteq> - 1"
  shows "\<exists>x g'. (thread_step rnd ^^ (2 * unat (max_retries g) + 8)) (Arrived request, g) = (Returned x, g') \<and>
    handle rnd request g = Some (x, g')"
proof -
  obtain x g' where run: "(thread_step rnd ^^ (2 * unat (max_retries g) + 8)) (Arrived request, g) = (Returned x, g')"
    using alone_returns [OF assms refl, of "Arrived request" "2 * unat (max_retries g) + 8" rnd] by auto
  then have "handle rnd request g = Some (x, g')"
    using alone_resumes [OF refl run] by simp
  with run show ?thesis by blast
qed

theorem thread_alone_is_handle_witness:
  "let g = Gateway \<lparr>shards = [], cluster_metrics = Metrics\<rparr> ''dev-secret'' 20 40 2 \<lparr>time = 0, ticks = []\<rparr>;
       request = sample_request ''GET'' ''/healthz'' []
   in max_retries g \<noteq> - 1 \<and> (\<exists>x g'. (thread_step (\<lambda>x. x) ^^ 12) (Arrived request, g) = (Returned x, g') \<and>
    handle (\<lambda>x. x) request g = Some (x, g'))"
  using thread_alone_is_handle [of "Gateway \<lparr>shards = [], cluster_metrics = Metrics\<rparr> ''dev-secret'' 20 40 2 \<lparr>time = 0, ticks = []\<rparr>"
      "\<lambda>x. x" "sample_request ''GET'' ''/healthz'' []"]
  by (simp add: Let_def Gateway_def)

text \<open>
  C12. Concurrent requests are linearizable. Let any number of threads handle any requests (reads, writes,
  deletes, administration), with their critical sections interleaved in any way, on a cluster that holds
  \<open>m\<close> and whose engines report no errors. The calls on the cluster, in the order in which they take effect,
  are a legal history of one key-value map: every acknowledged write and delete is in it, every read
  returns the value at its place in the history, and the cluster holds the map after the whole history.
  A thread that has returned has a response and no exception; a request on a key was either turned away
  before the cluster (401, 429, 503, with no call), or it made one call in the end that the response
  reports, and all its calls before were refused, so that no write is applied twice.
\<close>

theorem concurrent_requests_linearize:
  assumes "gateway_holds n g m" and "pool_run rnd (start_pool reqs g) is q"
  shows "gateway_holds n (pool_gateway q) (fold (take_effect n) (history q) m) \<and> legal n m (history q) \<and>
    (\<forall>i x. i < length reqs \<and> threads q ! i = Returned x \<longrightarrow>
      (\<exists>resp. x = Inr resp \<and> response_from (reqs ! i) (own i (history q)) resp))"
proof -
  have "consistent n m reqs q" using pool_run_consistent [OF assms(2) start_consistent [OF assms(1)]] .
  then show ?thesis unfolding consistent_def by (metis thread_ok.simps(9))
qed

theorem concurrent_requests_linearize_witness:
  "\<exists>c q resp. Cluster 4 3 None (\<lambda>_. None) (\<lambda>_. []) 0 Metrics = Inr c \<and>
    pool_run (\<lambda>x. x) (start_pool [sample_request ''PUT'' ''/v1/kv/a'' ''1'', sample_request ''GET'' ''/v1/kv/a'' []]
      (Gateway c ''dev-secret'' 20 40 2 \<lparr>time = 0, ticks = []\<rparr>)) (concat (replicate 12 [1, 0])) q \<and>
    legal 4 Map.empty (history q) \<and> threads q ! 1 = Returned (Inr resp) \<and>
    response_from (sample_request ''GET'' ''/v1/kv/a'' []) (own 1 (history q)) resp"
proof -
  let ?reqs = "[sample_request ''PUT'' ''/v1/kv/a'' ''1'', sample_request ''GET'' ''/v1/kv/a'' []]"
  let ?is = "concat (replicate 12 [1, 0]) :: nat list"
  obtain c where c: "Cluster 4 3 None (\<lambda>_. None) (\<lambda>_. []) 0 Metrics = Inr c"
    "gateway_holds 4 (Gateway c ''dev-secret'' 20 40 2 \<lparr>time = 0, ticks = []\<rparr>) Map.empty"
    using fresh_gateway [of 4 3 2 0 Metrics "''dev-secret''" 20 40 "\<lparr>time = 0, ticks = []\<rparr>"] by auto
  let ?g = "Gateway c ''dev-secret'' 20 40 2 \<lparr>time = 0, ticks = []\<rparr>"
  have "set ?is = {0, 1}" "count_list ?is 1 = 12" by code_simp+
  then obtain q where q: "pool_run (\<lambda>x. x) (start_pool ?reqs ?g) ?is q"
    using pool_run_exists [of ?is "start_pool ?reqs ?g"] by (auto simp: start_pool_def)
  moreover obtain x where "threads q ! 1 = Returned x"
    using pool_returns [OF q, of 1] \<open>count_list ?is 1 = 12\<close> by (auto simp: Gateway_def)
  ultimately show ?thesis
    using concurrent_requests_linearize [OF c(2) q] c(1) by fastforce
qed

text \<open>
  C23. No thread waits for others: whatever the other threads do, and under every schedule of engine errors,
  a thread that has entered \<open>2 * max_retries + 8\<close> critical sections has returned.
\<close>

theorem every_thread_returns:
  assumes "pool_run rnd (start_pool reqs g) is q" and "max_retries g \<noteq> - 1" and "i < length reqs"
    and "2 * unat (max_retries g) + 8 \<le> count_list is i"
  shows "\<exists>x. threads q ! i = Returned x"
  using assms by (rule pool_returns)

theorem every_thread_returns_witness:
  "\<exists>q x. pool_run (\<lambda>x. x) (start_pool [sample_request ''PUT'' ''/v1/kv/a'' ''1'', sample_request ''GET'' ''/v1/kv/a'' []]
      (Gateway \<lparr>shards = [], cluster_metrics = Metrics\<rparr> ''dev-secret'' 20 40 2 \<lparr>time = 0, ticks = []\<rparr>))
      (concat (replicate 12 [1, 0])) q \<and> threads q ! 0 = Returned x"
proof -
  let ?p = "start_pool [sample_request ''PUT'' ''/v1/kv/a'' ''1'', sample_request ''GET'' ''/v1/kv/a'' []]
      (Gateway \<lparr>shards = [], cluster_metrics = Metrics\<rparr> ''dev-secret'' 20 40 2 \<lparr>time = 0, ticks = []\<rparr>)"
  let ?is = "concat (replicate 12 [1, 0]) :: nat list"
  have count: "set ?is = {0, 1}" "count_list ?is 0 = 12" by code_simp+
  then obtain q where q: "pool_run (\<lambda>x. x) ?p ?is q"
    using pool_run_exists [of ?is ?p] by (auto simp: start_pool_def)
  from every_thread_returns [OF q, of 0] count(2) q show ?thesis by (auto simp: Gateway_def)
qed

end
