(* ===== verification/Http_Listener.thy ===== *)
theory Http_Listener
  imports Http_Server
begin

text \<open>
  The life of the listening socket in \<^verbatim>\<open>src/http_server.cpp\<close>: the constructor, \<open>run\<close> and \<open>stop\<close>, which the
  destructor calls too. The results of the system calls come from outside: \<open>os\<close> holds those of the
  start, and a list of events those of \<open>accept\<close>, with the calls of \<open>stop\<close> by the signal handler among them.
  \<open>closed_fds\<close> records the descriptors of the server that were closed.
\<close>

record http_server =
  bind_address :: string
  port :: "16 word"
  running :: bool
  server_fd :: int
  closed_fds :: "int list"

record os =
  socket_rc :: int
  pton_rc :: int
  bind_rc :: int
  listen_rc :: int
  errno_text :: string

definition HttpServer :: "string \<Rightarrow> 16 word \<Rightarrow> http_server" where
  "HttpServer addr p = \<lparr>bind_address = addr, port = p, running = False, server_fd = - 1, closed_fds = []\<rparr>"

text \<open>\<open>::close(server_fd_); server_fd_ = -1;\<close>\<close>

definition close_server :: "(http_server, unit) op" where
  "close_server = modifyE (\<lambda>s. s\<lparr>closed_fds := closed_fds s @ [server_fd s], server_fd := - 1\<rparr>)"

definition stop :: "(http_server, unit) op" where
  "stop =
     bindE (getE running) (\<lambda>was_running.
     bindE (modifyE (\<lambda>s. s\<lparr>running := False\<rparr>)) (\<lambda>_.
     if \<not> was_running then ret ()
     else bindE (getE server_fd) (\<lambda>fd. if fd \<ge> 0 then close_server else ret ())))"

text \<open>\<open>run\<close> up to the accept loop.\<close>

definition start_listening :: "os \<Rightarrow> (http_server, unit) op" where
  "start_listening sys =
     bindE (modifyE (\<lambda>s. s\<lparr>server_fd := socket_rc sys\<rparr>)) (\<lambda>_.
     if socket_rc sys < 0 then throwE (Runtime_error (''socket() failed: '' @ errno_text sys))
     else if pton_rc sys \<noteq> 1
     then bindE close_server (\<lambda>_. bindE (getE bind_address) (\<lambda>addr.
            throwE (Runtime_error (''invalid bind address: '' @ addr))))
     else if bind_rc sys < 0
     then bindE close_server (\<lambda>_. throwE (Runtime_error (''bind() failed: '' @ errno_text sys)))
     else if listen_rc sys < 0
     then bindE close_server (\<lambda>_. throwE (Runtime_error (''listen() failed: '' @ errno_text sys)))
     else modifyE (\<lambda>s. s\<lparr>running := True\<rparr>))"

text \<open>
  \<open>Accepted\<close>: a connection and the text of its address, if \<open>inet_ntop\<close> gave one; \<open>Accept_failed\<close>: a
  result below zero, for whatever reason; \<open>Stop_called\<close>: the signal handler ran.
\<close>

datatype accept_event = Accepted int "string option" | Accept_failed | Stop_called

text \<open>
  The accept loop; the result is the threads that were started, as descriptor and address. At the end of
  the events a server that is still \<open>running\<close> waits in \<open>accept\<close>, and one that is not has left the loop.
\<close>

fun accept_loop :: "accept_event list \<Rightarrow> (http_server, (int \<times> string) list) op" where
  "accept_loop [] = ret []"
| "accept_loop (e # es) =
     bindE (getE running) (\<lambda>r.
     if \<not> r then ret []
     else (case e of
         Accepted fd ip \<Rightarrow>
           bindE (accept_loop es) (\<lambda>ts. ret ((fd, case ip of None \<Rightarrow> ''unknown'' | Some a \<Rightarrow> a) # ts))
       | Accept_failed \<Rightarrow> accept_loop es
       | Stop_called \<Rightarrow> bindE stop (\<lambda>_. accept_loop es)))"

definition run :: "os \<Rightarrow> accept_event list \<Rightarrow> (http_server, (int \<times> string) list) op" where
  "run sys es = bindE (start_listening sys) (\<lambda>_. accept_loop es)"

subsection \<open>The socket is closed once\<close>

definition listening :: "int \<Rightarrow> http_server \<Rightarrow> bool" where
  "listening fd s \<longleftrightarrow> running s \<and> server_fd s = fd \<and> closed_fds s = []"

definition stopped :: "int \<Rightarrow> http_server \<Rightarrow> bool" where
  "stopped fd s \<longleftrightarrow> \<not> running s \<and> server_fd s = - 1 \<and> closed_fds s = [fd]"

fun started_threads :: "accept_event list \<Rightarrow> (int \<times> string) list" where
  "started_threads [] = []"
| "started_threads (Accepted fd ip # es) = (fd, case ip of None \<Rightarrow> ''unknown'' | Some a \<Rightarrow> a) # started_threads es"
| "started_threads (Accept_failed # es) = started_threads es"
| "started_threads (Stop_called # es) = []"

lemma stop_listening: "listening fd s \<Longrightarrow> 0 \<le> fd \<Longrightarrow> \<exists>s'. stop s = (Inr (), s') \<and> stopped fd s'"
  by (simp add: stop_def close_server_def listening_def stopped_def bindE_def getE_def modifyE_def ret_def)

lemma stop_stopped: "\<not> running s \<Longrightarrow> stop s = (Inr (), s)"
  by (cases s) (simp add: stop_def bindE_def getE_def modifyE_def ret_def)

lemma accept_loop_stopped: "\<not> running s \<Longrightarrow> accept_loop es s = (Inr [], s)"
  by (cases es) (simp_all add: bindE_def getE_def ret_def)

lemma accept_loop_threads:
  assumes "listening fd s" and "0 \<le> fd"
  shows "\<exists>s'. accept_loop es s = (Inr (started_threads es), s') \<and>
    (if Stop_called \<in> set es then stopped fd s' else listening fd s')"
  using assms
proof (induction es rule: started_threads.induct)
  case (4 es)
  obtain s' where s': "stop s = (Inr (), s')" "stopped fd s'" using stop_listening [OF 4] by blast
  then show ?case
    using 4 accept_loop_stopped [of s' es] by (simp add: bindE_def getE_def listening_def stopped_def)
qed (auto simp: bindE_def getE_def ret_def listening_def)

definition starts :: "os \<Rightarrow> bool" where
  "starts sys \<longleftrightarrow> socket_rc sys \<ge> 0 \<and> pton_rc sys = 1 \<and> bind_rc sys \<ge> 0 \<and> listen_rc sys \<ge> 0"

lemma run_starts:
  assumes "starts sys"
  obtains s where "run sys es (HttpServer addr p) = (Inr (started_threads es), s)"
    "if Stop_called \<in> set es then stopped (socket_rc sys) s else listening (socket_rc sys) s"
proof -
  let ?s = "(HttpServer addr p)\<lparr>server_fd := socket_rc sys, running := True\<rparr>"
  have "start_listening sys (HttpServer addr p) = (Inr (), ?s)"
    using assms by (simp add: starts_def start_listening_def bindE_def modifyE_def)
  moreover have "listening (socket_rc sys) ?s" by (simp add: listening_def HttpServer_def)
  ultimately show thesis
    using accept_loop_threads [of "socket_rc sys" ?s es] assms that by (auto simp: starts_def run_def bindE_def)
qed

text \<open>
  C31. The listening socket is closed exactly once, on every path. If one of the system calls of the start
  fails, \<open>run\<close> throws, and the descriptor that \<open>socket\<close> gave, if it gave one, has been closed. Otherwise a
  thread is started for exactly the connections that were accepted before the first call of \<open>stop\<close>, in
  their order; the socket stays open until that call, which closes it and ends the loop. Once \<open>run\<close> has
  ended, \<open>stop\<close>, which the destructor calls, changes nothing.
\<close>

theorem listener_closes_once:
  "case run sys es (HttpServer addr p) of (x, s) \<Rightarrow>
     if starts sys
     then x = Inr (started_threads es) \<and>
       (if Stop_called \<in> set es then stopped (socket_rc sys) s \<and> stop s = (Inr (), s)
        else listening (socket_rc sys) s)
     else (\<exists>msg. x = Inl (Runtime_error msg)) \<and> \<not> running s \<and> server_fd s < 0 \<and> stop s = (Inr (), s) \<and>
       closed_fds s = (if socket_rc sys < 0 then [] else [socket_rc sys])"
proof (cases "starts sys")
  case True
  then obtain s where "run sys es (HttpServer addr p) = (Inr (started_threads es), s)"
    "if Stop_called \<in> set es then stopped (socket_rc sys) s else listening (socket_rc sys) s"
    using run_starts by blast
  with True show ?thesis using stop_stopped [of s] by (auto simp: stopped_def split: if_splits)
next
  case False
  then show ?thesis
    by (auto simp: starts_def run_def start_listening_def close_server_def HttpServer_def stop_def bindE_def modifyE_def
        getE_def throwE_def ret_def)
qed

end
