(* ===== verification/Service_Main.thy ===== *)
theory Service_Main
  imports Http_Service Http_Listener
begin

text \<open>
  \<^verbatim>\<open>src/main.cpp\<close>: the configuration from the environment and the command line, and the start of the
  service from it. \<open>env\<close> is what \<open>std::getenv\<close> gives and \<open>args\<close> the arguments after the program name. The
  number that \<open>std::stod\<close> reads from a text is a parameter of the definitions, as the rounding of \<open>double\<close>
  arithmetic is elsewhere. The files on disk, the errors of the engines and the results of the system
  calls are arguments of the start, as in the theories of the parts.
\<close>

subsection \<open>Configuration\<close>

record config =
  cfg_bind :: string
  cfg_port :: "16 word"
  cfg_data_dir :: string
  cfg_shards :: "64 word"
  cfg_replicas :: "64 word"
  cfg_api_key :: string
  cfg_rate_per_second :: rat
  cfg_burst :: rat
  cfg_retries :: "64 word"

definition Config :: config where
  "Config = \<lparr>cfg_bind = ''0.0.0.0'', cfg_port = 8080, cfg_data_dir = ''./data'', cfg_shards = 4,
     cfg_replicas = 3, cfg_api_key = ''dev-secret'', cfg_rate_per_second = 20, cfg_burst = 40, cfg_retries = 2\<rparr>"

type_synonym environment = "string \<Rightarrow> string option"

definition env_or :: "environment \<Rightarrow> string \<Rightarrow> string \<Rightarrow> string" where
  "env_or env name fallback = (case env name of None \<Rightarrow> fallback | Some val \<Rightarrow> val)"

definition env_size_or :: "environment \<Rightarrow> string \<Rightarrow> 64 word \<Rightarrow> exn + 64 word" where
  "env_size_or env name fallback = (case env name of None \<Rightarrow> Inr fallback | Some val \<Rightarrow> stoull val)"

definition env_double_or :: "(string \<Rightarrow> exn + rat) \<Rightarrow> environment \<Rightarrow> string \<Rightarrow> rat \<Rightarrow> exn + rat" where
  "env_double_or stod env name fallback = (case env name of None \<Rightarrow> Inr fallback | Some val \<Rightarrow> stod val)"

text \<open>\<open>std::stoul\<close>: \<open>unsigned long\<close> has 64 bits.\<close>

definition stoul :: "string \<Rightarrow> exn + 64 word" where
  "stoul s =
    (case parse_decimal s of
       None \<Rightarrow> Inl (Invalid_argument ''stoul'')
     | Some (neg, n) \<Rightarrow>
         (if n < 2 ^ 64 then Inr (if neg then - of_nat n else of_nat n) else Inl (Out_of_range ''stoul'')))"

definition load_environment :: "(string \<Rightarrow> exn + rat) \<Rightarrow> environment \<Rightarrow> (config, unit) op" where
  "load_environment stod env =
     bindE (modifyE (\<lambda>c. c\<lparr>cfg_bind := env_or env ''KV_BIND'' (cfg_bind c)\<rparr>)) (\<lambda>_.
     bindE (getE cfg_port) (\<lambda>p.
     bindE (liftE (env_size_or env ''KV_PORT'' (ucast p))) (\<lambda>n.
     bindE (modifyE (\<lambda>c. c\<lparr>cfg_port := ucast n\<rparr>)) (\<lambda>_.
     bindE (modifyE (\<lambda>c. c\<lparr>cfg_data_dir := env_or env ''KV_DATA_DIR'' (cfg_data_dir c)\<rparr>)) (\<lambda>_.
     bindE (getE cfg_shards) (\<lambda>d.
     bindE (liftE (env_size_or env ''KV_SHARDS'' d)) (\<lambda>n.
     bindE (modifyE (\<lambda>c. c\<lparr>cfg_shards := n\<rparr>)) (\<lambda>_.
     bindE (getE cfg_replicas) (\<lambda>d.
     bindE (liftE (env_size_or env ''KV_REPLICAS'' d)) (\<lambda>n.
     bindE (modifyE (\<lambda>c. c\<lparr>cfg_replicas := n\<rparr>)) (\<lambda>_.
     bindE (modifyE (\<lambda>c. c\<lparr>cfg_api_key := env_or env ''KV_API_KEY'' (cfg_api_key c)\<rparr>)) (\<lambda>_.
     bindE (getE cfg_rate_per_second) (\<lambda>d.
     bindE (liftE (env_double_or stod env ''KV_RATE_PER_SECOND'' d)) (\<lambda>x.
     bindE (modifyE (\<lambda>c. c\<lparr>cfg_rate_per_second := x\<rparr>)) (\<lambda>_.
     bindE (getE cfg_burst) (\<lambda>d.
     bindE (liftE (env_double_or stod env ''KV_BURST'' d)) (\<lambda>x.
     bindE (modifyE (\<lambda>c. c\<lparr>cfg_burst := x\<rparr>)) (\<lambda>_.
     bindE (getE cfg_retries) (\<lambda>d.
     bindE (liftE (env_size_or env ''KV_RETRIES'' d)) (\<lambda>n.
     modifyE (\<lambda>c. c\<lparr>cfg_retries := n\<rparr>)))))))))))))))))))))"

text \<open>The options with a value, and what each does with it.\<close>

definition set_option :: "(string \<Rightarrow> exn + rat) \<Rightarrow> string \<Rightarrow> (string \<Rightarrow> (config, unit) op) option" where
  "set_option stod arg =
    (if arg = ''--bind'' then Some (\<lambda>v. modifyE (\<lambda>c. c\<lparr>cfg_bind := v\<rparr>))
     else if arg = ''--port''
     then Some (\<lambda>v. bindE (liftE (stoul v)) (\<lambda>n. modifyE (\<lambda>c. c\<lparr>cfg_port := ucast n\<rparr>)))
     else if arg = ''--data-dir'' then Some (\<lambda>v. modifyE (\<lambda>c. c\<lparr>cfg_data_dir := v\<rparr>))
     else if arg = ''--shards''
     then Some (\<lambda>v. bindE (liftE (stoull v)) (\<lambda>n. modifyE (\<lambda>c. c\<lparr>cfg_shards := n\<rparr>)))
     else if arg = ''--replicas''
     then Some (\<lambda>v. bindE (liftE (stoull v)) (\<lambda>n. modifyE (\<lambda>c. c\<lparr>cfg_replicas := n\<rparr>)))
     else if arg = ''--api-key'' then Some (\<lambda>v. modifyE (\<lambda>c. c\<lparr>cfg_api_key := v\<rparr>))
     else if arg = ''--rate''
     then Some (\<lambda>v. bindE (liftE (stod v)) (\<lambda>x. modifyE (\<lambda>c. c\<lparr>cfg_rate_per_second := x\<rparr>)))
     else if arg = ''--burst''
     then Some (\<lambda>v. bindE (liftE (stod v)) (\<lambda>x. modifyE (\<lambda>c. c\<lparr>cfg_burst := x\<rparr>)))
     else if arg = ''--retries''
     then Some (\<lambda>v. bindE (liftE (stoull v)) (\<lambda>n. modifyE (\<lambda>c. c\<lparr>cfg_retries := n\<rparr>)))
     else None)"

text \<open>The loop over the arguments; \<open>True\<close>: \<open>--help\<close> was found, the help is printed and the process exits.\<close>

fun parse_args :: "(string \<Rightarrow> exn + rat) \<Rightarrow> string list \<Rightarrow> (config, bool) op" where
  "parse_args stod [] = ret False"
| "parse_args stod (arg # rest) =
    (case set_option stod arg of
       Some f \<Rightarrow>
         (case rest of
            [] \<Rightarrow> throwE (Invalid_argument (''missing value for '' @ arg))
          | v # rest' \<Rightarrow> bindE (f v) (\<lambda>_. parse_args stod rest'))
     | None \<Rightarrow>
         (if arg = ''--help'' then ret True
          else throwE (Invalid_argument (''unknown argument: '' @ arg))))"

text \<open>\<open>Inr None\<close>: the process exits after the help.\<close>

definition parse_config :: "(string \<Rightarrow> exn + rat) \<Rightarrow> environment \<Rightarrow> string list \<Rightarrow> exn + config option" where
  "parse_config stod env args =
     fst (bindE (load_environment stod env) (\<lambda>_.
          bindE (parse_args stod args) (\<lambda>help.
          if help then ret None
          else bindE (getE id) (\<lambda>c.
            if cfg_shards c = 0 \<or> cfg_replicas c = 0
            then throwE (Invalid_argument ''shards and replicas must be positive'')
            else ret (Some c)))) Config)"

subsection \<open>The start\<close>

text \<open>
  What \<open>main\<close> builds before \<open>run\<close>: the cluster, the gateway on it and the server. \<open>dir_error\<close> is the
  exception of \<open>create_directories\<close>, if it throws.
\<close>

definition build_service ::
    "exn option \<Rightarrow> disk \<Rightarrow> engine \<Rightarrow> int \<Rightarrow> steady_clock \<Rightarrow> config \<Rightarrow> exn + gateway \<times> http_server" where
  "build_service dir_error files eng epoch_now ck cfg =
    (case Cluster (unat (cfg_shards cfg)) (unat (cfg_replicas cfg)) dir_error files eng epoch_now Metrics of
       Inl e \<Rightarrow> Inl e
     | Inr c \<Rightarrow>
         Inr (Gateway c (cfg_api_key cfg) (cfg_rate_per_second cfg) (cfg_burst cfg) (cfg_retries cfg) ck,
              HttpServer (cfg_bind cfg) (cfg_port cfg)))"

text \<open>
  The exit code and what is written to the error stream; \<open>None\<close>: the service still runs after the events.
\<close>

definition main ::
    "(string \<Rightarrow> exn + rat) \<Rightarrow> environment \<Rightarrow> string list \<Rightarrow> exn option \<Rightarrow> disk \<Rightarrow> engine \<Rightarrow> int \<Rightarrow> steady_clock \<Rightarrow>
     os \<Rightarrow> accept_event list \<Rightarrow> (int \<times> string) option" where
  "main stod env args dir_error files eng epoch_now ck sys es =
    (let fatal = (\<lambda>e. Some (1, ''fatal: '' @ what e @ [CHR 0x0A]))
     in case parse_config stod env args of
          Inl e \<Rightarrow> fatal e
        | Inr None \<Rightarrow> Some (0, [])
        | Inr (Some cfg) \<Rightarrow>
            (case build_service dir_error files eng epoch_now ck cfg of
               Inl e \<Rightarrow> fatal e
             | Inr (_, server) \<Rightarrow>
                 (case run sys es server of
                    (Inl e, _) \<Rightarrow> fatal e
                  | (Inr _, s) \<Rightarrow> if running s then None else Some (0, []))))"

subsection \<open>Properties\<close>

lemma parse_config_positive:
  assumes "parse_config stod env args = Inr (Some cfg)"
  shows "cfg_shards cfg \<noteq> 0 \<and> cfg_replicas cfg \<noteq> 0"
  using assms by (auto simp: parse_config_def bindE_def getE_def ret_def throwE_def split: prod.splits sum.splits if_splits)




end
